theory Spec2Isabelle
  imports Main "HOL-Library.AList"
begin

section \<open>Overview\<close>

text \<open>
  The core services of the League of Legends plug-in as functions on explicit states:
  \<^verbatim>\<open>StateManager\<close> (preferences, cache, the state file), \<^verbatim>\<open>LoLDataService\<close>
  (connection state, endpoint polling, reconnection) and \<^verbatim>\<open>KeyService\<close> (devices,
  keys, throttled rendering, retries). A method takes the state of its object and
  returns the new state; what it throws is part of its result. \<^verbatim>\<open>Date.now()\<close> is the
  argument \<open>now\<close>, and the answers of the environment (the client's HTTP responses,
  the outcome of a connection attempt, of a draw call, of the file system) are arguments
  too. Timers are entries of the state, and a function says what the callback of a timer
  does when it fires. An event that a service emits is an entry of a log; its listeners
  are not run.

  In \<^verbatim>\<open>StateManager\<close> and \<^verbatim>\<open>LoLDataService\<close> a method runs to its end with the
  answers it is given: what other callbacks do between an \<^verbatim>\<open>await\<close> and its
  continuation is left out, except for the endpoint polls, whose continuation is a
  function of its own. In \<^verbatim>\<open>KeyService\<close> the draw calls that wait for the host's
  answer are entries of the state, and what the service does when an answer arrives is
  a function of its own, so that anything can be handled in between.
\<close>

section \<open>JavaScript data\<close>

text \<open>
  Values held in the services' maps and written to the state file are JSON data.
  JavaScript's \<^verbatim>\<open>undefined\<close> is not a member of the type: a lookup that would yield
  \<^verbatim>\<open>undefined\<close> yields \<open>None\<close>, and an object property whose value is
  \<^verbatim>\<open>undefined\<close> is represented by the absence of the property. Numbers are the
  integers (timestamps, counters, widths); \<^verbatim>\<open>NaN\<close> and fractions are left out.
\<close>

datatype json =
    JNull
  | JBool bool
  | JNum int
  | JStr string
  | JArr "json list"
  | JObj "(string \<times> json) list"

text \<open>ToBoolean, as used by \<^verbatim>\<open>||\<close>, \<^verbatim>\<open>&&\<close>, \<^verbatim>\<open>!\<close> and \<^verbatim>\<open>if\<close>.\<close>

fun truthy :: "json \<Rightarrow> bool" where
  "truthy JNull = False"
| "truthy (JBool b) = b"
| "truthy (JNum n) = (n \<noteq> 0)"
| "truthy (JStr s) = (s \<noteq> [])"
| "truthy (JArr xs) = True"
| "truthy (JObj ps) = True"

text \<open>\<^verbatim>\<open>a || b\<close> where \<^verbatim>\<open>a\<close> may be \<^verbatim>\<open>undefined\<close> (\<open>None\<close>).\<close>

definition js_or :: "json option \<Rightarrow> json \<Rightarrow> json" where
  "js_or a b = (case a of None \<Rightarrow> b | Some v \<Rightarrow> if truthy v then v else b)"

text \<open>
  A JavaScript \<^verbatim>\<open>Map\<close> is an association list with distinct keys, in insertion
  order: \<^verbatim>\<open>get\<close> is \<^const>\<open>map_of\<close>, \<^verbatim>\<open>set\<close> is \<^const>\<open>AList.update\<close> (an
  existing key keeps its place, a new one goes last), \<^verbatim>\<open>delete\<close> is
  \<^const>\<open>AList.delete\<close>. A \<^verbatim>\<open>Set\<close> is a list without repetitions.
\<close>

definition has :: "('k \<times> 'v) list \<Rightarrow> 'k \<Rightarrow> bool" where
  "has m k = (map_of m k \<noteq> None)"

definition set_add :: "'a \<Rightarrow> 'a list \<Rightarrow> 'a list" where
  "set_add x xs = (if x \<in> set xs then xs else xs @ [x])"

subsection \<open>Strings\<close>

fun startsWith :: "string \<Rightarrow> string \<Rightarrow> bool" where
  "startsWith s [] = True"
| "startsWith [] (p # ps) = False"
| "startsWith (c # cs) (p # ps) = (c = p \<and> startsWith cs ps)"

fun str_includes :: "string \<Rightarrow> string \<Rightarrow> bool" where
  "str_includes [] sub = (sub = [])"
| "str_includes (c # cs) sub = (startsWith (c # cs) sub \<or> str_includes cs sub)"

text \<open>\<^verbatim>\<open>s.split(sep)\<close> for a separator of one character.\<close>

fun split :: "char \<Rightarrow> string \<Rightarrow> string list" where
  "split sep [] = [[]]"
| "split sep (c # cs) =
     (if c = sep then [] # split sep cs
      else (case split sep cs of
              [] \<Rightarrow> [[c]]
            | p # ps \<Rightarrow> (c # p) # ps))"

text \<open>
  The order in which an object lists its own properties: array indices (canonical
  decimal numerals below \<open>2^32 - 1\<close>) first, ascending, then the other names in
  insertion order. \<^verbatim>\<open>Object.fromEntries\<close> of a Map, \<^verbatim>\<open>JSON.stringify\<close>,
  \<^verbatim>\<open>JSON.parse\<close> and \<^verbatim>\<open>Object.entries\<close> all list properties in this order.
\<close>

definition is_digit :: "char \<Rightarrow> bool" where
  "is_digit c = (48 \<le> (of_char c :: nat) \<and> (of_char c :: nat) \<le> 57)"

definition decimal_value :: "string \<Rightarrow> nat" where
  "decimal_value s = foldl (\<lambda>n c. 10 * n + ((of_char c :: nat) - 48)) 0 s"

definition is_array_index :: "string \<Rightarrow> bool" where
  "is_array_index s =
     (s \<noteq> [] \<and> list_all is_digit s \<and> (s = ''0'' \<or> hd s \<noteq> CHR ''0'')
      \<and> decimal_value s < 4294967295)"

definition fromEntries :: "(string \<times> 'v) list \<Rightarrow> (string \<times> 'v) list" where
  "fromEntries m =
     sort_key (\<lambda>p. decimal_value (fst p)) (filter (\<lambda>p. is_array_index (fst p)) m)
     @ filter (\<lambda>p. \<not> is_array_index (fst p)) m"

section \<open>StateManager\<close>

record sm_options =
  maxCacheAge :: int

definition sm_default_options :: sm_options where
  "sm_default_options = \<lparr> maxCacheAge = 300000 \<rparr>"

record sm_metadata =
  lastSave :: "int option"
  version :: string
  created :: int

record cache_entry =
  data :: json
  timestamp :: int
  expiry :: "int option"

record StateManager =
  options :: sm_options
  keys :: "(string \<times> json) list"
  connections :: "(string \<times> json) list"
  preferences :: "(string \<times> json) list"
  cache :: "(string \<times> cache_entry) list"
  metadata :: sm_metadata
  isDirty :: bool

text \<open>The constructor, at time \<open>now\<close>.\<close>

definition sm_new :: "int \<Rightarrow> StateManager" where
  "sm_new now =
     \<lparr> options = sm_default_options, keys = [], connections = [], preferences = [],
       cache = [],
       metadata = \<lparr> lastSave = None, version = ''1.0.0'', created = now \<rparr>,
       isDirty = False \<rparr>"

text \<open>
  The persistence file. \<open>NoFile\<close> is \<^verbatim>\<open>ENOENT\<close>; \<open>Unreadable\<close> is any other
  read failure or a content that \<^verbatim>\<open>JSON.parse\<close> rejects; \<open>Doc\<close> is a parsed JSON
  document, whose top-level members may each be missing. \<^verbatim>\<open>JSON.parse\<close> after
  \<^verbatim>\<open>JSON.stringify\<close> gives back the JSON document that was written.
\<close>

record saved_state =
  saved_keys :: "(string \<times> json) list option"
  saved_connections :: "(string \<times> json) list option"
  saved_preferences :: "(string \<times> json) list option"
  saved_cache :: "(string \<times> cache_entry) list option"
  saved_metadata :: "sm_metadata option"

datatype persistenceFile = NoFile | Unreadable | Doc saved_state

datatype sm_error = PersistenceError

definition markDirty :: "StateManager \<Rightarrow> StateManager" where
  "markDirty s = s\<lparr>isDirty := True\<rparr>"

text \<open>
  \<^verbatim>\<open>loadState\<close>: a missing file leaves the state as it is; an unreadable one throws;
  a document is restored only when it has \<^verbatim>\<open>metadata.version\<close>; cache entries are
  kept when \<^verbatim>\<open>value.timestamp && (now - value.timestamp) < maxCacheAge\<close>.
\<close>

definition cache_entry_valid :: "int \<Rightarrow> int \<Rightarrow> cache_entry \<Rightarrow> bool" where
  "cache_entry_valid now maxAge value = (timestamp value \<noteq> 0 \<and> now - timestamp value < maxAge)"

definition loadState :: "int \<Rightarrow> persistenceFile \<Rightarrow> StateManager \<Rightarrow> sm_error + StateManager" where
  "loadState now f s =
     (case f of
        NoFile \<Rightarrow> Inr s
      | Unreadable \<Rightarrow> Inl PersistenceError
      | Doc savedState \<Rightarrow>
          (case saved_metadata savedState of
             None \<Rightarrow> Inr s
           | Some md \<Rightarrow>
               if version md = [] then Inr s
               else
                 let s1 = (case saved_keys savedState of
                             None \<Rightarrow> s | Some ks \<Rightarrow> s\<lparr>keys := ks\<rparr>);
                     s2 = (case saved_connections savedState of
                             None \<Rightarrow> s1 | Some cs \<Rightarrow> s1\<lparr>connections := cs\<rparr>);
                     s3 = (case saved_preferences savedState of
                             None \<Rightarrow> s2 | Some ps \<Rightarrow> s2\<lparr>preferences := ps\<rparr>);
                     s4 = (case saved_cache savedState of
                             None \<Rightarrow> s3
                           | Some ce \<Rightarrow>
                               s3\<lparr>cache :=
                                    filter (\<lambda>(key, value).
                                              cache_entry_valid now (maxCacheAge (options s)) value)
                                      ce\<rparr>)
                 in Inr (s4\<lparr>metadata := md\<rparr>)))"

text \<open>
  \<^verbatim>\<open>saveState\<close>: nothing happens unless the state is dirty. \<open>io_ok\<close> says whether
  \<^verbatim>\<open>mkdir\<close>, \<^verbatim>\<open>writeFile\<close> and \<^verbatim>\<open>rename\<close> succeed; when they do not the
  file is as before and the error is thrown.
\<close>

definition serializable :: "int \<Rightarrow> StateManager \<Rightarrow> saved_state" where
  "serializable now s =
     \<lparr> saved_keys = Some (fromEntries (keys s)),
       saved_connections = Some (fromEntries (connections s)),
       saved_preferences = Some (fromEntries (preferences s)),
       saved_cache = Some (fromEntries (cache s)),
       saved_metadata = Some ((metadata s)\<lparr>lastSave := Some now\<rparr>) \<rparr>"

definition saveState :: "int \<Rightarrow> bool \<Rightarrow> persistenceFile \<Rightarrow> StateManager \<Rightarrow> sm_error + (persistenceFile \<times> StateManager)" where
  "saveState now io_ok f s =
     (if \<not> isDirty s then Inr (f, s)
      else if \<not> io_ok then Inl PersistenceError
      else Inr (Doc (serializable now s),
                s\<lparr>isDirty := False, metadata := (metadata s)\<lparr>lastSave := Some now\<rparr>\<rparr>))"

text \<open>
  Object spread \<^verbatim>\<open>{...a, ...b}\<close> on property lists: the properties of \<open>a\<close>
  with those of \<open>b\<close> written over them, listed in the order of an object's own
  properties.
\<close>

definition spread :: "(string \<times> json) list \<Rightarrow> (string \<times> json) list \<Rightarrow> (string \<times> json) list" where
  "spread a b = fromEntries (fold (\<lambda>(k, v). AList.update k v) b a)"

text \<open>The own properties that a spread copies; the spread values here are objects or missing.\<close>

definition own_props :: "json option \<Rightarrow> (string \<times> json) list" where
  "own_props v = (case v of Some (JObj ps) \<Rightarrow> ps | _ \<Rightarrow> [])"

definition updateKeyState :: "int \<Rightarrow> string \<Rightarrow> json \<Rightarrow> StateManager \<Rightarrow> StateManager" where
  "updateKeyState now keyUid dat s =
     (let currentState = js_or (map_of (keys s) keyUid) (JObj []);
          newState = JObj (AList.update ''lastUpdate'' (JNum now)
                             (spread (own_props (Some currentState)) (own_props (Some dat))))
      in markDirty (s\<lparr>keys := AList.update keyUid newState (keys s)\<rparr>))"

definition getKeyState :: "string \<Rightarrow> StateManager \<Rightarrow> json" where
  "getKeyState keyUid s = js_or (map_of (keys s) keyUid) JNull"

definition setPreference :: "string \<Rightarrow> json \<Rightarrow> StateManager \<Rightarrow> StateManager" where
  "setPreference key v s = markDirty (s\<lparr>preferences := AList.update key v (preferences s)\<rparr>)"

text \<open>
  \<^verbatim>\<open>getPreference(key, defaultValue = null)\<close>: the second argument is \<open>None\<close> when it
  is omitted or \<^verbatim>\<open>undefined\<close>, and the parameter is then \<^verbatim>\<open>null\<close>.
\<close>

definition default_param :: "json option \<Rightarrow> json" where
  "default_param arg = (case arg of None \<Rightarrow> JNull | Some v \<Rightarrow> v)"

definition getPreference :: "string \<Rightarrow> json option \<Rightarrow> StateManager \<Rightarrow> json" where
  "getPreference key arg s =
     (let defaultValue = default_param arg
      in js_or (map_of (preferences s) key) defaultValue)"

definition setCache :: "int \<Rightarrow> string \<Rightarrow> json \<Rightarrow> int option \<Rightarrow> StateManager \<Rightarrow> StateManager" where
  "setCache now key dat ttl s =
     (let expiry = (case ttl of None \<Rightarrow> None
                    | Some t \<Rightarrow> if t \<noteq> 0 then Some (now + t) else None)
      in markDirty (s\<lparr>cache :=
           AList.update key \<lparr> data = dat, timestamp = now, expiry = expiry \<rparr> (cache s)\<rparr>))"

definition getCache :: "int \<Rightarrow> string \<Rightarrow> StateManager \<Rightarrow> json option \<times> StateManager" where
  "getCache now key s =
     (case map_of (cache s) key of
        None \<Rightarrow> (None, s)
      | Some entry \<Rightarrow>
          (case expiry entry of
             None \<Rightarrow> (Some (data entry), s)
           | Some e \<Rightarrow>
               if e \<noteq> 0 \<and> now > e
               then (None, markDirty (s\<lparr>cache := AList.delete key (cache s)\<rparr>))
               else (Some (data entry), s)))"

text \<open>A restart: the state is saved at \<open>t1\<close> and a manager \<open>s0\<close> loads the file at \<open>t2\<close>.\<close>

definition save_then_load ::
  "int \<Rightarrow> int \<Rightarrow> persistenceFile \<Rightarrow> StateManager \<Rightarrow> StateManager \<Rightarrow> sm_error + StateManager" where
  "save_then_load t1 t2 f s s0 =
     (case saveState t1 True f s of
        Inl e \<Rightarrow> Inl e
      | Inr (f', s1) \<Rightarrow> loadState t2 f' s0)"

text \<open>A cache entry stored at time 1000 with a time to live of one second.\<close>

definition expired_entry_example :: StateManager where
  "expired_entry_example = setCache 1000 ''summoner'' (JStr ''Faker'') (Some 1000) (sm_new 0)"

section \<open>LoLDataService\<close>

record endpoint_config =
  endpoint :: string
  interval :: int
  type :: string
  suppressErrors :: bool

record lol_options =
  reconnectDelay :: int
  maxReconnectAttempts :: nat
  processMonitorFrequency :: int
  endpointConfig :: "endpoint_config list"

definition lol_default_options :: lol_options where
  "lol_default_options =
     \<lparr> reconnectDelay = 2000, maxReconnectAttempts = 5, processMonitorFrequency = 3000,
       endpointConfig =
         [ \<lparr> endpoint = ''/lol-summoner/v1/current-summoner'', interval = 5000,
             type = ''summoner'', suppressErrors = False \<rparr>,
           \<lparr> endpoint = ''/lol-gameflow/v1/gameflow-phase'', interval = 2000,
             type = ''gameflow'', suppressErrors = False \<rparr>,
           \<lparr> endpoint = ''/lol-champ-select/v1/session'', interval = 1000,
             type = ''champselect'', suppressErrors = True \<rparr>,
           \<lparr> endpoint = ''/lol-ranked/v1/current-ranked-stats'', interval = 5000,
             type = ''ranked'', suppressErrors = False \<rparr>,
           \<lparr> endpoint = ''/lol-inventory/v1/wallet'', interval = 10000,
             type = ''wallet'', suppressErrors = True \<rparr> ] \<rparr>"

text \<open>
  The events the service emits, in order: \<open>connectionChanged connected reason
  timestamp\<close>, \<open>dataUpdated type endpoint data timestamp previousData\<close>,
  \<open>gameStateChanged phase previous timestamp\<close>, and \<open>pollingError message
  endpoint\<close> for the \<^verbatim>\<open>'error'\<close> event with code \<^verbatim>\<open>POLLING_ERROR\<close>.
\<close>

datatype lol_event =
    connectionChanged bool string int
  | dataUpdated string string json int "json option"
  | gameStateChanged json "json option" int
  | pollingError string string

text \<open>
  The timers the service holds with the runtime: one interval per endpoint poller, and
  the one-shot retries of \<^verbatim>\<open>handleReconnection\<close> with the time they are due.
\<close>

datatype lol_timer = Poller endpoint_config | ReconnectRetry int

record cached =
  cached_data :: json
  cached_timestamp :: int

record LoLDataService =
  lol_opts :: lol_options
  isConnected :: bool
  connectionAttempts :: nat
  port :: "string option"
  password :: "string option"
  baseURL :: "string option"
  axios :: "string option"
  lol_version :: "string option"
  endpointPollers :: "(string \<times> nat) list"
  lastKnownGameState :: "json option"
  dataCache :: "(string \<times> cached) list"
  lol_timers :: "(nat \<times> lol_timer) list"
  lol_nextTimer :: nat
  emitted :: "lol_event list"

definition lol_new :: LoLDataService where
  "lol_new =
     \<lparr> lol_opts = lol_default_options, isConnected = False, connectionAttempts = 0,
       port = None, password = None, baseURL = None, axios = None, lol_version = None,
       endpointPollers = [], lastKnownGameState = None, dataCache = [],
       lol_timers = [], lol_nextTimer = 0, emitted = [] \<rparr>"

definition emit :: "lol_event \<Rightarrow> LoLDataService \<Rightarrow> LoLDataService" where
  "emit e s = s\<lparr>emitted := emitted s @ [e]\<rparr>"

definition setConnectionState :: "int \<Rightarrow> bool \<Rightarrow> string \<Rightarrow> LoLDataService \<Rightarrow> LoLDataService" where
  "setConnectionState now connected reason s =
     (let wasConnected = isConnected s;
          s1 = s\<lparr>isConnected := connected\<rparr>
      in if wasConnected \<noteq> connected
         then emit (connectionChanged connected reason now) s1
         else s1)"

definition resetConnectionDetails :: "LoLDataService \<Rightarrow> LoLDataService" where
  "resetConnectionDetails s = s\<lparr>port := None, password := None, baseURL := None, axios := None\<rparr>"

text \<open>
  \<^verbatim>\<open>===\<close> on two values of which the second may be \<^verbatim>\<open>undefined\<close>. The values
  compared are the payloads of two different responses, so two arrays or two objects
  are never the same object.
\<close>

fun strict_equal :: "json \<Rightarrow> json option \<Rightarrow> bool" where
  "strict_equal a None = False"
| "strict_equal JNull (Some b) = (b = JNull)"
| "strict_equal (JBool x) (Some b) = (b = JBool x)"
| "strict_equal (JNum x) (Some b) = (b = JNum x)"
| "strict_equal (JStr x) (Some b) = (b = JStr x)"
| "strict_equal (JArr x) (Some b) = False"
| "strict_equal (JObj x) (Some b) = False"

definition handleGameStateChange :: "int \<Rightarrow> json \<Rightarrow> json option \<Rightarrow> LoLDataService \<Rightarrow> LoLDataService" where
  "handleGameStateChange now currentState previousState s =
     (if \<not> strict_equal currentState previousState
      then emit (gameStateChanged currentState previousState now)
             (s\<lparr>lastKnownGameState := Some currentState\<rparr>)
      else s)"

text \<open>
  A poll has two parts. Up to the \<^verbatim>\<open>await\<close> it only checks
  \<^verbatim>\<open>!this.isConnected || !this.axios\<close> and sends the request; the rest runs when the
  response arrives (\<open>handleEndpointPoll_resume\<close>), with no further check.
  \<open>handleEndpointPoll\<close> is a poll whose response arrives before anything else happens.
\<close>

datatype response = Response json | RequestFailed string

definition poll_sends :: "LoLDataService \<Rightarrow> bool" where
  "poll_sends s = (\<not> (\<not> isConnected s \<or> axios s = None))"

definition handleEndpointPoll_resume ::
  "int \<Rightarrow> endpoint_config \<Rightarrow> response \<Rightarrow> LoLDataService \<Rightarrow> LoLDataService" where
  "handleEndpointPoll_resume now config r s =
     (case r of
        Response dat \<Rightarrow>
          (let cacheKey = type config;
               previousData = map_of (dataCache s) cacheKey;
               s1 = s\<lparr>dataCache := AList.update cacheKey
                        \<lparr> cached_data = dat, cached_timestamp = now \<rparr> (dataCache s)\<rparr>;
               s2 = emit (dataUpdated (type config) (endpoint config) dat now
                            (map_option cached_data previousData)) s1
           in if type config = ''gameflow''
              then handleGameStateChange now dat (map_option cached_data previousData) s2
              else s2)
      | RequestFailed message \<Rightarrow>
          (if \<not> suppressErrors config
           then emit (pollingError (''Failed to poll '' @ endpoint config @ '': '' @ message)
                        (endpoint config)) s
           else s))"

definition handleEndpointPoll ::
  "int \<Rightarrow> endpoint_config \<Rightarrow> response \<Rightarrow> LoLDataService \<Rightarrow> LoLDataService" where
  "handleEndpointPoll now config r s =
     (if \<not> poll_sends s then s else handleEndpointPoll_resume now config r s)"

text \<open>
  \<^verbatim>\<open>startEndpointPolling\<close>: one interval per configured endpoint, recorded under the
  endpoint's path. The poll it starts at once for each endpoint sends its request here;
  its response is a later \<open>handleEndpointPoll_resume\<close>.
\<close>

definition startPoller :: "endpoint_config \<Rightarrow> LoLDataService \<Rightarrow> LoLDataService" where
  "startPoller config s =
     (let poller = lol_nextTimer s
      in s\<lparr>lol_timers := lol_timers s @ [(poller, Poller config)],
           lol_nextTimer := Suc poller,
           endpointPollers := AList.update (endpoint config) poller (endpointPollers s)\<rparr>)"

definition startEndpointPolling :: "LoLDataService \<Rightarrow> LoLDataService" where
  "startEndpointPolling s = fold startPoller (endpointConfig (lol_opts s)) s"

definition clearInterval :: "nat \<Rightarrow> LoLDataService \<Rightarrow> LoLDataService" where
  "clearInterval h s = s\<lparr>lol_timers := filter (\<lambda>t. fst t \<noteq> h) (lol_timers s)\<rparr>"

definition stopEndpointPolling :: "LoLDataService \<Rightarrow> LoLDataService" where
  "stopEndpointPolling s =
     (fold (\<lambda>(endpoint, poller). clearInterval poller) (endpointPollers s) s)
       \<lparr>endpointPollers := []\<rparr>"

definition handleDisconnection :: "int \<Rightarrow> LoLDataService \<Rightarrow> LoLDataService" where
  "handleDisconnection now s =
     resetConnectionDetails
       (stopEndpointPolling (setConnectionState now False ''League process stopped'' s))"

text \<open>
  What the environment answers to a connection attempt: discovery fails (with its
  message), or discovery succeeds and the validation request fails, or both succeed
  (\<^verbatim>\<open>getLatestVersion\<close> never throws; it yields a version or the fallback).
\<close>

record connection_details =
  found_port :: string
  found_password :: string
  found_protocol :: string

datatype connect_outcome =
    DiscoveryFailed string
  | ValidationFailed connection_details
  | Established connection_details string

definition setupAxiosClient :: "connection_details \<Rightarrow> LoLDataService \<Rightarrow> LoLDataService" where
  "setupAxiosClient c s =
     (let url = found_protocol c @ ''://127.0.0.1:'' @ found_port c
      in s\<lparr>port := Some (found_port c), password := Some (found_password c),
           baseURL := Some url, axios := Some url\<rparr>)"

text \<open>\<^verbatim>\<open>attemptConnection\<close> returns the message of the error it throws, if any.\<close>

definition attemptConnection ::
  "int \<Rightarrow> connect_outcome \<Rightarrow> LoLDataService \<Rightarrow> string option \<times> LoLDataService" where
  "attemptConnection now outcome s =
     (case outcome of
        DiscoveryFailed message \<Rightarrow>
          (Some message, setConnectionState now False message s)
      | ValidationFailed c \<Rightarrow>
          (Some ''Connection validation failed'',
           setConnectionState now False ''Connection validation failed'' (setupAxiosClient c s))
      | Established c v \<Rightarrow>
          (None,
           (startEndpointPolling
              (setConnectionState now True ''Connected successfully''
                 ((setupAxiosClient c s)\<lparr>lol_version := Some v\<rparr>)))
             \<lparr>connectionAttempts := 0\<rparr>))"

text \<open>
  \<^verbatim>\<open>handleReconnection\<close>; \<open>now\<close> is the time at which the attempt (after its delay)
  has its answer. A failed attempt below the maximum schedules one retry.
\<close>

definition handleReconnection ::
  "int \<Rightarrow> connect_outcome \<Rightarrow> LoLDataService \<Rightarrow> LoLDataService" where
  "handleReconnection now outcome s =
     (if connectionAttempts s \<ge> maxReconnectAttempts (lol_opts s) then s
      else
        (case attemptConnection now outcome (s\<lparr>connectionAttempts := Suc (connectionAttempts s)\<rparr>) of
           (None, s2) \<Rightarrow> s2
         | (Some message, s2) \<Rightarrow>
             if connectionAttempts s2 < maxReconnectAttempts (lol_opts s2)
             then s2\<lparr>lol_timers := lol_timers s2 @
                        [(lol_nextTimer s2, ReconnectRetry (now + reconnectDelay (lol_opts s2)))],
                     lol_nextTimer := Suc (lol_nextTimer s2)\<rparr>
             else s2))"

text \<open>The retry timer \<open>h\<close> fires at \<open>now\<close> and calls \<^verbatim>\<open>handleReconnection\<close>.\<close>

definition retry_fires :: "nat \<Rightarrow> int \<Rightarrow> connect_outcome \<Rightarrow> LoLDataService \<Rightarrow> LoLDataService" where
  "retry_fires h now outcome s =
     (case map_of (lol_timers s) h of
        Some (ReconnectRetry due) \<Rightarrow>
          if due \<le> now then handleReconnection now outcome (clearInterval h s) else s
      | _ \<Rightarrow> s)"

text \<open>\<^verbatim>\<open>handleProcessCheck\<close>, given what \<^verbatim>\<open>isLeagueProcessRunning\<close> answered.\<close>

definition handleProcessCheck ::
  "int \<Rightarrow> bool \<Rightarrow> connect_outcome \<Rightarrow> LoLDataService \<Rightarrow> LoLDataService" where
  "handleProcessCheck now isRunning outcome s =
     (if isRunning \<and> \<not> isConnected s then handleReconnection now outcome s
      else if \<not> isRunning \<and> isConnected s then handleDisconnection now s
      else s)"

definition forceReconnect :: "int \<Rightarrow> connect_outcome \<Rightarrow> LoLDataService \<Rightarrow> LoLDataService" where
  "forceReconnect now outcome s =
     (let s1 = (if isConnected s then handleDisconnection now s else s)
      in handleReconnection now outcome (s1\<lparr>connectionAttempts := 0\<rparr>))"

text \<open>A sequence of connection-state reports, and a sequence of gameflow polls.\<close>

fun report_all :: "(int \<times> bool \<times> string) list \<Rightarrow> LoLDataService \<Rightarrow> LoLDataService" where
  "report_all [] s = s"
| "report_all ((now, connected, reason) # rs) s =
     report_all rs (setConnectionState now connected reason s)"

fun poll_all :: "endpoint_config \<Rightarrow> (int \<times> json) list \<Rightarrow> LoLDataService \<Rightarrow> LoLDataService" where
  "poll_all config [] s = s"
| "poll_all config ((now, dat) # ps) s =
     poll_all config ps (handleEndpointPoll now config (Response dat) s)"

text \<open>
  What the specification asks for: one \<open>connectionChanged\<close> per report that differs
  from the state before it, and one \<open>gameStateChanged\<close> per polled phase that
  differs from the phase before it.
\<close>

fun actual_changes :: "bool \<Rightarrow> (int \<times> bool \<times> string) list \<Rightarrow> lol_event list" where
  "actual_changes current [] = []"
| "actual_changes current ((now, connected, reason) # rs) =
     (if connected = current then actual_changes current rs
      else connectionChanged connected reason now # actual_changes connected rs)"

fun phase_changes :: "json option \<Rightarrow> (int \<times> json) list \<Rightarrow> lol_event list" where
  "phase_changes previous [] = []"
| "phase_changes previous ((now, phase) # ps) =
     (if strict_equal phase previous then phase_changes (Some phase) ps
      else gameStateChanged phase previous now # phase_changes (Some phase) ps)"

fun is_gameStateChanged :: "lol_event \<Rightarrow> bool" where
  "is_gameStateChanged (gameStateChanged phase previous now) = True"
| "is_gameStateChanged e = False"

definition gameflow :: endpoint_config where
  "gameflow = \<lparr> endpoint = ''/lol-gameflow/v1/gameflow-phase'', interval = 2000,
                type = ''gameflow'', suppressErrors = False \<rparr>"


text \<open>The poll timers among the runtime's timers, and the invariant that the service
  has each of them on record in \<open>endpointPollers\<close>.\<close>

fun is_Poller :: "lol_timer \<Rightarrow> bool" where
  "is_Poller (Poller config) = True"
| "is_Poller (ReconnectRetry t) = False"

definition poll_timers :: "LoLDataService \<Rightarrow> (nat \<times> lol_timer) list" where
  "poll_timers s = filter (\<lambda>t. is_Poller (snd t)) (lol_timers s)"

definition pollers_tracked :: "LoLDataService \<Rightarrow> bool" where
  "pollers_tracked s = list_all (\<lambda>t. fst t \<in> snd ` set (endpointPollers s)) (poll_timers s)"

subsection \<open>Scenarios\<close>

text \<open>A service that has just connected; three polls of the game phase; a service that
  polled the phase, lost the client and connected again; a service whose five
  reconnection attempts all failed.\<close>

definition connected_example :: LoLDataService where
  "connected_example =
     snd (attemptConnection 0
            (Established \<lparr> found_port = ''51000'', found_password = ''secret'',
                           found_protocol = ''https'' \<rparr> ''15.10.1'')
            lol_new)"

definition champ_select_polls :: "(int \<times> json) list" where
  "champ_select_polls =
     [(100, JStr ''ChampSelect''), (2100, JStr ''ChampSelect''), (4100, JStr ''InProgress'')]"

definition reconnected_example :: LoLDataService where
  "reconnected_example =
     snd (attemptConnection 9000
            (Established \<lparr> found_port = ''52000'', found_password = ''other'',
                           found_protocol = ''https'' \<rparr> ''15.10.1'')
            (handleDisconnection 6000
               (handleEndpointPoll 100 gameflow (Response (JStr ''ChampSelect''))
                  connected_example)))"

definition not_found :: connect_outcome where
  "not_found = DiscoveryFailed ''League client process not found''"

definition exhausted_example :: LoLDataService where
  "exhausted_example =
     handleProcessCheck 12000 True not_found
       (handleProcessCheck 9000 True not_found
          (handleProcessCheck 6000 True not_found
             (handleProcessCheck 3000 True not_found
                (handleProcessCheck 0 True not_found lol_new))))"

section \<open>KeyService\<close>

text \<open>
  The methods \<^verbatim>\<open>executeRender\<close>, \<^verbatim>\<open>queueRender\<close> and \<^verbatim>\<open>updateKey\<close> are
  asynchronous: they run until \<^verbatim>\<open>executeRender\<close> waits for the host to answer
  \<^verbatim>\<open>plugin.draw\<close>, and go on when the answer arrives. Whatever the service is asked
  to do in between runs on the state they left. So each of the three is a function for
  the part before the wait, the draw calls that wait for their answer are entries of
  the state (\<open>inFlight\<close>), and \<open>draw_settles\<close> is what happens when the host answers
  one of them. The continuations that follow one answer (of \<^verbatim>\<open>executeRender\<close>, then
  of \<^verbatim>\<open>queueRender\<close>, then of \<^verbatim>\<open>updateKey\<close>) run one after the other with
  nothing in between, and at one time; so does the continuation of an \<^verbatim>\<open>await\<close> of
  something that has already failed or finished.
\<close>

record ks_options =
  throttleInterval :: int
  maxRetries :: nat
  retryDelay :: int
  cleanupDelay :: int

definition ks_default_options :: ks_options where
  "ks_default_options =
     \<lparr> throttleInterval = 100, maxRetries = 3, retryDelay = 1000, cleanupDelay = 5000 \<rparr>"

datatype lifecycle = inactive | active | dead | failed

text \<open>
  A key as the host describes it: its \<^verbatim>\<open>uid\<close> (by its string rendering, as the
  template literal of the key id renders it) and its other properties (\<^verbatim>\<open>cid\<close>,
  \<^verbatim>\<open>title\<close>, \<^verbatim>\<open>width\<close>, \<^verbatim>\<open>style\<close>, ...).
\<close>

record key =
  uid :: string
  props :: "(string \<times> json) list"

text \<open>
  The \<^verbatim>\<open>keyData\<close> objects of \<^verbatim>\<open>activeKeys\<close>. \<^verbatim>\<open>updateKey\<close> keeps the object
  it found across its wait and writes to it afterwards, when \<^verbatim>\<open>registerKeys\<close> may
  have put a new object in its place; \<open>obj\<close> is the identity of the object (the
  number of the registration that created it), by which the two are told apart.
\<close>

record keyData =
  obj :: nat
  serialNumber :: string
  keyUid :: string
  config :: key
  state :: lifecycle
  lastUpdate :: "int option"
  retryCount :: nat

record renderTask =
  keyId :: string
  renderData :: "(string \<times> json) list"
  queued_at :: int
  timeout :: "nat option"

text \<open>
  Events: \<open>keyRendered serialNumber keyUid timestamp\<close>, \<open>keyError serialNumber keyUid
  message timestamp\<close>, \<open>deviceConnected serialNumber\<close>, \<open>deviceDisconnected
  serialNumber\<close>. The calls made to \<^verbatim>\<open>plugin.draw\<close> are recorded as well, when they
  are made: \<open>draw serialNumber renderData\<close> and \<open>draw_base64 serialNumber renderData
  image\<close>.
\<close>

datatype ks_event =
    keyRendered string "string option" int
  | keyError string "string option" string int
  | deviceConnected string
  | deviceDisconnected string

datatype draw_call =
    draw string "(string \<times> json) list"
  | draw_base64 string "(string \<times> json) list" string

text \<open>What the host answers to a draw call: it resolves, or rejects with a message.\<close>

datatype draw_outcome = Drawn | DrawFailed string

text \<open>
  The pending \<^verbatim>\<open>setTimeout\<close> callbacks of the service: the delayed
  \<^verbatim>\<open>executeRender\<close> of \<^verbatim>\<open>queueRender\<close> and the retry of \<^verbatim>\<open>handleKeyError\<close>.
\<close>

datatype ks_callback = ExecuteRender renderTask | Retry keyData

record ks_timer =
  handle :: nat
  due :: int
  callback :: ks_callback

text \<open>
  A draw call that waits for its answer, with the render task it draws and who waits
  for \<^verbatim>\<open>executeRender\<close>: nobody (\<open>Deferred\<close>: the timer callback of
  \<^verbatim>\<open>queueRender\<close> does not await it), \<^verbatim>\<open>queueRender\<close> called by
  \<^verbatim>\<open>renderConnectionState\<close> (\<open>Queued\<close>), or \<^verbatim>\<open>queueRender\<close> called by
  \<^verbatim>\<open>updateKey\<close>, which holds the \<^verbatim>\<open>keyData\<close> it found (\<open>Updating\<close>).
\<close>

datatype continuation = Deferred | Queued | Updating keyData

record flight =
  fl_task :: renderTask
  fl_then :: continuation

record KeyService =
  ks_opts :: ks_options
  stateManager :: StateManager
  activeKeys :: "(string \<times> keyData) list"
  renderQueue :: "(string \<times> renderTask) list"
  lastRenderTime :: "(string \<times> int) list"
  errorCounts :: "(string \<times> nat) list"
  connectedDevices :: "string list"
  plugin :: bool
  ks_timers :: "ks_timer list"
  ks_nextTimer :: nat
  ks_nextObject :: nat
  inFlight :: "flight list"
  ks_emitted :: "ks_event list"
  draws :: "draw_call list"

definition ks_new :: "int \<Rightarrow> KeyService" where
  "ks_new now =
     \<lparr> ks_opts = ks_default_options, stateManager = sm_new now, activeKeys = [],
       renderQueue = [], lastRenderTime = [], errorCounts = [], connectedDevices = [],
       plugin = False, ks_timers = [], ks_nextTimer = 0, ks_nextObject = 0, inFlight = [],
       ks_emitted = [], draws = [] \<rparr>"

definition setPlugin :: "KeyService \<Rightarrow> KeyService" where
  "setPlugin s = s\<lparr>plugin := True\<rparr>"

definition ks_emit :: "ks_event \<Rightarrow> KeyService \<Rightarrow> KeyService" where
  "ks_emit e s = s\<lparr>ks_emitted := ks_emitted s @ [e]\<rparr>"

definition setTimeout :: "ks_callback \<Rightarrow> int \<Rightarrow> int \<Rightarrow> KeyService \<Rightarrow> KeyService" where
  "setTimeout cb delay now s =
     s\<lparr>ks_timers := ks_timers s @ [\<lparr> handle = ks_nextTimer s, due = now + delay, callback = cb \<rparr>],
       ks_nextTimer := Suc (ks_nextTimer s)\<rparr>"

text \<open>\<^verbatim>\<open>clearTimeout\<close>; the argument is \<open>None\<close> for \<^verbatim>\<open>null\<close>.\<close>

definition clearTimeout :: "nat option \<Rightarrow> KeyService \<Rightarrow> KeyService" where
  "clearTimeout h s =
     (case h of
        None \<Rightarrow> s
      | Some n \<Rightarrow> s\<lparr>ks_timers := filter (\<lambda>t. handle t \<noteq> n) (ks_timers s)\<rparr>)"

definition isDeviceConnected :: "KeyService \<Rightarrow> string \<Rightarrow> bool" where
  "isDeviceConnected s sn = (sn \<in> set (connectedDevices s))"

definition isThrottled :: "int \<Rightarrow> string \<Rightarrow> KeyService \<Rightarrow> bool" where
  "isThrottled now kid s =
     (case map_of (lastRenderTime s) kid of
        None \<Rightarrow> False
      | Some lastRender \<Rightarrow>
          if lastRender = 0 then False
          else now - lastRender < throttleInterval (ks_opts s))"

definition getThrottleDelay :: "int \<Rightarrow> string \<Rightarrow> KeyService \<Rightarrow> int" where
  "getThrottleDelay now kid s =
     (case map_of (lastRenderTime s) kid of
        None \<Rightarrow> 0
      | Some lastRender \<Rightarrow>
          if lastRender = 0 then 0
          else (let timeSinceLastRender = now - lastRender;
                    remainingThrottle = throttleInterval (ks_opts s) - timeSinceLastRender
                in max 0 remainingThrottle))"

text \<open>
  \<^verbatim>\<open>const [serialNumber, keyUid] = keyId.split('-')\<close>: the first two components;
  the second is \<^verbatim>\<open>undefined\<close> when the id has no dash. (\<open>split\<close> never returns
  the empty list.)
\<close>

definition keyId_of :: "string \<Rightarrow> string \<Rightarrow> string" where
  "keyId_of sn kuid = sn @ ''-'' @ kuid"

definition keyId_parts :: "string \<Rightarrow> string \<times> string option" where
  "keyId_parts kid =
     (case split CHR ''-'' kid of
        [] \<Rightarrow> ([], None)
      | [a] \<Rightarrow> (a, None)
      | a # b # rest \<Rightarrow> (a, Some b))"

text \<open>
  The draw call that \<^verbatim>\<open>executeRender\<close> makes for a render: the four-argument form
  for a base64 PNG, the two-argument form otherwise. A truthy \<^verbatim>\<open>renderData.image\<close>
  that is not a string has no \<^verbatim>\<open>startsWith\<close>, which is a TypeError (\<open>Inl\<close>) inside
  the \<^verbatim>\<open>try\<close>.
\<close>

definition render_call :: "string \<Rightarrow> (string \<times> json) list \<Rightarrow> string + draw_call" where
  "render_call serial rd =
     (case map_of rd ''image'' of
        None \<Rightarrow> Inr (draw serial rd)
      | Some (JStr img) \<Rightarrow>
          if img \<noteq> [] \<and> startsWith img ''data:image/png;base64,''
          then Inr (draw_base64 serial (AList.delete ''image'' rd) img)
          else Inr (draw serial rd)
      | Some v \<Rightarrow>
          if truthy v then Inl ''renderData.image.startsWith is not a function''
          else Inr (draw serial rd))"

text \<open>
  \<^verbatim>\<open>executeRender\<close> up to its \<^verbatim>\<open>await\<close>; \<open>k\<close> is who waits for it. It records the
  time of the attempt, then either throws before any draw call (\<open>Some message\<close>: the
  \<^verbatim>\<open>catch\<close> and \<^verbatim>\<open>finally\<close> blocks have run), or makes the draw call and waits
  for the answer (\<open>None\<close>).
\<close>

definition executeRender ::
  "int \<Rightarrow> continuation \<Rightarrow> renderTask \<Rightarrow> KeyService \<Rightarrow> string option \<times> KeyService" where
  "executeRender now k task s =
     (let kid = keyId task;
          rd = renderData task;
          serial = fst (keyId_parts kid);
          kuid = snd (keyId_parts kid);
          s1 = s\<lparr>lastRenderTime := AList.update kid now (lastRenderTime s)\<rparr>;
          attempt = (if \<not> plugin s1
                     then Inl ''Plugin instance not available for rendering''
                     else render_call serial rd)
      in (case attempt of
            Inl message \<Rightarrow>
              (let s2 = ks_emit (keyError serial kuid message now) s1
               in (Some message, s2\<lparr>renderQueue := AList.delete kid (renderQueue s2)\<rparr>))
          | Inr c \<Rightarrow>
              (None, s1\<lparr>draws := draws s1 @ [c],
                        inFlight := inFlight s1 @ [\<lparr> fl_task = task, fl_then = k \<rparr>]\<rparr>)))"

text \<open>
  \<^verbatim>\<open>executeRender\<close> after the answer \<open>d\<close> to its draw call: the event, and the
  \<^verbatim>\<open>finally\<close> block, which deletes whatever entry the render queue has for the key
  by then.
\<close>

definition executeRender_resume :: "int \<Rightarrow> draw_outcome \<Rightarrow> renderTask \<Rightarrow> KeyService \<Rightarrow> KeyService" where
  "executeRender_resume now d task s =
     (let kid = keyId task;
          serial = fst (keyId_parts kid);
          kuid = snd (keyId_parts kid);
          s1 = (case d of
                  Drawn \<Rightarrow> ks_emit (keyRendered serial kuid now) s
                | DrawFailed message \<Rightarrow> ks_emit (keyError serial kuid message now) s)
      in s1\<lparr>renderQueue := AList.delete kid (renderQueue s1)\<rparr>)"

text \<open>
  \<^verbatim>\<open>queueRender\<close> up to its \<^verbatim>\<open>await\<close>: the promise it returns is rejected,
  resolved (the render is scheduled), or waits for \<^verbatim>\<open>executeRender\<close>. After a
  render that succeeded it records the task it ran (\<open>queueRender_resume\<close>).
\<close>

datatype progress = Rejected string | Resolved | Waiting

definition queueRender ::
  "int \<Rightarrow> continuation \<Rightarrow> string \<Rightarrow> (string \<times> json) list \<Rightarrow> KeyService
     \<Rightarrow> progress \<times> KeyService" where
  "queueRender now k kid rd s =
     (let s1 = (case map_of (renderQueue s) kid of
                  None \<Rightarrow> s
                | Some queued \<Rightarrow> clearTimeout (timeout queued) s);
          task = \<lparr> keyId = kid, renderData = rd, queued_at = now, timeout = None \<rparr>;
          delay = getThrottleDelay now kid s1
      in if delay > 0
         then (let task' = task\<lparr>timeout := Some (ks_nextTimer s1)\<rparr>;
                   s2 = setTimeout (ExecuteRender task') delay now s1
               in (Resolved, s2\<lparr>renderQueue := AList.update kid task' (renderQueue s2)\<rparr>))
         else (case executeRender now k task s1 of
                 (Some message, s2) \<Rightarrow> (Rejected message, s2)
               | (None, s2) \<Rightarrow> (Waiting, s2)))"

definition queueRender_resume :: "renderTask \<Rightarrow> KeyService \<Rightarrow> KeyService" where
  "queueRender_resume task s = s\<lparr>renderQueue := AList.update (keyId task) task (renderQueue s)\<rparr>"

definition getConnectionStateRenderOptions :: "json \<Rightarrow> (string \<times> json) list" where
  "getConnectionStateRenderOptions connectionState =
     (if connectionState = JStr ''disconnected''
      then [(''title'', JStr ''League Offline''), (''backgroundColor'', JStr ''#8B0000''),
            (''showImage'', JBool False), (''showTitle'', JBool True)]
      else if connectionState = JStr ''reconnecting''
      then [(''title'', JStr ''Reconnecting...''), (''backgroundColor'', JStr ''#FF8C00''),
            (''showImage'', JBool False), (''showTitle'', JBool True)]
      else if connectionState = JStr ''connected''
      then [(''title'', JStr ''League Connected''), (''backgroundColor'', JStr ''#006400''),
            (''showImage'', JBool False), (''showTitle'', JBool True)]
      else [(''title'', JStr ''Status Unknown''), (''backgroundColor'', JStr ''#696969''),
            (''showImage'', JBool False), (''showTitle'', JBool True)])"

text \<open>Reading a property of a value that is not \<^verbatim>\<open>null\<close>, and writing one of
  \<^verbatim>\<open>renderData.style\<close>.\<close>

definition get :: "json \<Rightarrow> string \<Rightarrow> json option" where
  "get v name = (case v of JObj ps \<Rightarrow> map_of ps name | _ \<Rightarrow> None)"

definition set_style :: "string \<Rightarrow> json \<Rightarrow> (string \<times> json) list \<Rightarrow> (string \<times> json) list" where
  "set_style name v rd =
     AList.update ''style'' (JObj (AList.update name v (own_props (map_of rd ''style'')))) rd"

definition applyDataToRenderData :: "(string \<times> json) list \<Rightarrow> json \<Rightarrow> (string \<times> json) list" where
  "applyDataToRenderData rd dat =
     (let rd1 = (case get dat ''imageData'' of
                   None \<Rightarrow> rd
                 | Some imageData \<Rightarrow>
                     if truthy imageData
                     then set_style ''showTitle'' (JBool False)
                            (set_style ''showImage'' (JBool True)
                               (AList.update ''image'' imageData rd))
                     else rd)
      in (case get dat ''connectionState'' of
            None \<Rightarrow> rd1
          | Some connectionState \<Rightarrow>
              if truthy connectionState
              then (let stateOptions = getConnectionStateRenderOptions connectionState;
                        rd2 = spread rd1 stateOptions
                    in AList.update ''style''
                         (JObj (spread (own_props (map_of rd2 ''style'')) stateOptions)) rd2)
              else rd1))"

definition prepareRenderData ::
  "keyData \<Rightarrow> json \<Rightarrow> (string \<times> json) list \<Rightarrow> (string \<times> json) list" where
  "prepareRenderData kd dat renderOptions =
     (let cfg = config kd;
          rd = [(''uid'', JStr (uid cfg)),
                (''title'', js_or (map_of (props cfg) ''title'') (JStr ''League of Legends'')),
                (''width'', js_or (map_of (props cfg) ''width'') (JNum 72)),
                (''style'', JObj (spread
                   [(''showTitle'', JBool True), (''showImage'', JBool False),
                    (''showIcon'', JBool False), (''showEmoji'', JBool False),
                    (''backgroundColor'', JStr ''#1E3A8A'')]
                   (own_props (map_of (props cfg) ''style''))))];
          rd1 = (if truthy dat then applyDataToRenderData rd dat else rd);
          rd2 = (case map_of renderOptions ''title'' of
                   None \<Rightarrow> rd1 | Some v \<Rightarrow> AList.update ''title'' v rd1);
          rd3 = (case map_of renderOptions ''backgroundColor'' of
                   None \<Rightarrow> rd2 | Some v \<Rightarrow> set_style ''backgroundColor'' v rd2);
          rd4 = (case map_of renderOptions ''showImage'' of
                   None \<Rightarrow> rd3 | Some v \<Rightarrow> set_style ''showImage'' v rd3)
      in (case map_of renderOptions ''showTitle'' of
            None \<Rightarrow> rd4 | Some v \<Rightarrow> set_style ''showTitle'' v rd4))"

definition terminal :: "string \<Rightarrow> bool" where
  "terminal message = (str_includes message ''not alive'' \<or> str_includes message ''not connected'')"

text \<open>
  \<^verbatim>\<open>handleKeyError\<close>; \<open>error_count\<close> is \<^verbatim>\<open>this.errorCounts.get(keyId) || 0\<close>.
  It looks the key up again, so \<^verbatim>\<open>keyData.state = ...\<close> changes the entry of
  \<^verbatim>\<open>activeKeys\<close>; the retry callback keeps that \<^verbatim>\<open>keyData\<close>, of which it reads
  the serial number and the uid.
\<close>

definition error_count :: "string \<Rightarrow> KeyService \<Rightarrow> nat" where
  "error_count kid s = (case map_of (errorCounts s) kid of None \<Rightarrow> 0 | Some n \<Rightarrow> n)"

definition handleKeyError :: "int \<Rightarrow> string \<Rightarrow> string \<Rightarrow> KeyService \<Rightarrow> KeyService" where
  "handleKeyError now kid message s =
     (let errorCount = error_count kid s + 1;
          s1 = s\<lparr>errorCounts := AList.update kid errorCount (errorCounts s)\<rparr>
      in (case map_of (activeKeys s1) kid of
            None \<Rightarrow> s1
          | Some kd \<Rightarrow>
              if terminal message
              then s1\<lparr>activeKeys := AList.map_entry kid (\<lambda>k. k\<lparr>state := dead\<rparr>) (activeKeys s1)\<rparr>
              else if errorCount \<le> maxRetries (ks_opts s1)
              then setTimeout (Retry kd) (retryDelay (ks_opts s1) * int errorCount) now s1
              else s1\<lparr>activeKeys :=
                        AList.map_entry kid (\<lambda>k. k\<lparr>state := failed\<rparr>) (activeKeys s1)\<rparr>))"

text \<open>
  \<^verbatim>\<open>updateKey\<close> up to its \<^verbatim>\<open>await\<close>: it returns its boolean (\<open>Some\<close>), or waits
  for the draw of the render it queued (\<open>None\<close>). After a render that succeeded it
  writes to the \<^verbatim>\<open>keyData\<close> object it holds, which changes \<^verbatim>\<open>activeKeys\<close> if
  the object is still there, and forgets the error count (\<open>updateKey_resume\<close>).
\<close>

definition updateKey_resume :: "int \<Rightarrow> string \<Rightarrow> keyData \<Rightarrow> KeyService \<Rightarrow> KeyService" where
  "updateKey_resume now kid kd s =
     s\<lparr>activeKeys :=
         map (\<lambda>(k, d). (k, if obj d = obj kd
                           then d\<lparr>state := active, lastUpdate := Some now, retryCount := 0\<rparr>
                           else d))
           (activeKeys s),
       errorCounts := AList.delete kid (errorCounts s)\<rparr>"

definition updateKey ::
  "int \<Rightarrow> string \<Rightarrow> string \<Rightarrow> json \<Rightarrow> (string \<times> json) list \<Rightarrow> KeyService
     \<Rightarrow> bool option \<times> KeyService" where
  "updateKey now sn kuid dat renderOptions s =
     (let kid = keyId_of sn kuid
      in if \<not> isDeviceConnected s sn then (Some False, s)
         else (case map_of (activeKeys s) kid of
                 None \<Rightarrow> (Some False, s)
               | Some kd \<Rightarrow>
                   if isThrottled now kid s then (Some False, s)
                   else (let s1 = s\<lparr>stateManager := updateKeyState now kuid dat (stateManager s)\<rparr>;
                             rd = prepareRenderData kd dat renderOptions
                         in (case queueRender now (Updating kd) kid rd s1 of
                               (Resolved, s2) \<Rightarrow> (Some True, updateKey_resume now kid kd s2)
                             | (Rejected message, s2) \<Rightarrow>
                                 (Some False, handleKeyError now kid message s2)
                             | (Waiting, s2) \<Rightarrow> (None, s2)))))"

text \<open>
  The host answers the draw call that is \<open>i\<close>-th in line with \<open>d\<close>, at time \<open>now\<close>.
  \<^verbatim>\<open>executeRender\<close> goes on, then whoever waits for it: \<^verbatim>\<open>updateKey\<close> returns its
  boolean (\<open>Returned\<close>); a rejection that \<^verbatim>\<open>queueRender\<close> passes to
  \<^verbatim>\<open>renderConnectionState\<close>, or that nobody handles, is \<open>Thrown\<close>.
\<close>

datatype settled = Returned bool | Thrown string | Done

definition draw_settles :: "nat \<Rightarrow> draw_outcome \<Rightarrow> int \<Rightarrow> KeyService \<Rightarrow> settled \<times> KeyService" where
  "draw_settles i d now s =
     (if i < length (inFlight s)
      then (let f = inFlight s ! i;
                task = fl_task f;
                s0 = s\<lparr>inFlight := take i (inFlight s) @ drop (Suc i) (inFlight s)\<rparr>;
                s1 = executeRender_resume now d task s0
            in (case d of
                  Drawn \<Rightarrow>
                    (case fl_then f of
                       Deferred \<Rightarrow> (Done, s1)
                     | Queued \<Rightarrow> (Done, queueRender_resume task s1)
                     | Updating kd \<Rightarrow>
                         (Returned True,
                          updateKey_resume now (keyId task) kd (queueRender_resume task s1)))
                | DrawFailed message \<Rightarrow>
                    (case fl_then f of
                       Deferred \<Rightarrow> (Thrown message, s1)
                     | Queued \<Rightarrow> (Thrown message, s1)
                     | Updating kd \<Rightarrow>
                         (Returned False, handleKeyError now (keyId task) message s1))))
      else (Done, s))"

text \<open>The callback that \<^verbatim>\<open>handleKeyError\<close> schedules, up to the wait of \<^verbatim>\<open>updateKey\<close>.\<close>

definition retry :: "int \<Rightarrow> keyData \<Rightarrow> KeyService \<Rightarrow> KeyService" where
  "retry now kd s =
     (let cachedState = getKeyState (keyUid kd) (stateManager s)
      in if truthy cachedState
         then snd (updateKey now (serialNumber kd) (keyUid kd) cachedState [] s)
         else s)"

text \<open>
  The runtime runs the callback of timer \<open>h\<close> at time \<open>now\<close>, not before it is due.
  Nobody waits for the delayed \<^verbatim>\<open>executeRender\<close>.
\<close>

definition timer_fires :: "nat \<Rightarrow> int \<Rightarrow> KeyService \<Rightarrow> KeyService" where
  "timer_fires h now s =
     (case find (\<lambda>t. handle t = h) (ks_timers s) of
        None \<Rightarrow> s
      | Some t \<Rightarrow>
          if now < due t then s
          else (let s1 = clearTimeout (Some h) s
                in (case callback t of
                      ExecuteRender task \<Rightarrow> snd (executeRender now Deferred task s1)
                    | Retry kd \<Rightarrow> retry now kd s1)))"

definition removeKey :: "string \<Rightarrow> KeyService \<Rightarrow> KeyService" where
  "removeKey kid s =
     (let s1 = (case map_of (renderQueue s) kid of
                  None \<Rightarrow> s
                | Some queued \<Rightarrow>
                    (clearTimeout (timeout queued) s)
                      \<lparr>renderQueue := AList.delete kid (renderQueue s)\<rparr>)
      in s1\<lparr>activeKeys := AList.delete kid (activeKeys s1),
            lastRenderTime := AList.delete kid (lastRenderTime s1),
            errorCounts := AList.delete kid (errorCounts s1)\<rparr>)"

definition performCleanup :: "int \<Rightarrow> KeyService \<Rightarrow> KeyService" where
  "performCleanup now s =
     (let keysToRemove = map fst (filter (\<lambda>(kid, kd). state kd = dead \<or> state kd = failed)
                                    (activeKeys s));
          s1 = fold removeKey keysToRemove s;
          s2 = s1\<lparr>lastRenderTime :=
                    filter (\<lambda>(kid, ts). \<not> (\<not> has (activeKeys s1) kid \<or> now - ts > 300000))
                      (lastRenderTime s1)\<rparr>
      in s2\<lparr>errorCounts := filter (\<lambda>(kid, n). \<not> \<not> has (activeKeys s2) kid) (errorCounts s2)\<rparr>)"

definition handleDeviceDisconnection :: "string \<Rightarrow> KeyService \<Rightarrow> KeyService" where
  "handleDeviceDisconnection sn s =
     (let keysToRemove = map fst (filter (\<lambda>(kid, kd). startsWith kid (sn @ ''-''))
                                    (activeKeys s))
      in ks_emit (deviceDisconnected sn) (fold removeKey keysToRemove s))"

text \<open>
  The argument of \<^verbatim>\<open>handleDeviceStatus\<close>: something that is not an array, or an array
  of devices, each with its \<^verbatim>\<open>serialNumber\<close> (\<open>None\<close> when it has none).
\<close>

datatype device = Device "string option"

datatype device_status = NotAnArray | Devices "device list"

definition noteDevice :: "string list \<Rightarrow> device \<Rightarrow> string list \<times> KeyService \<Rightarrow> string list \<times> KeyService" where
  "noteDevice connected dev acc =
     (case dev of
        Device None \<Rightarrow> acc
      | Device (Some sn) \<Rightarrow>
          if sn = [] then acc
          else (set_add sn (fst acc),
                if sn \<notin> set connected then ks_emit (deviceConnected sn) (snd acc)
                else snd acc))"

definition disconnect_missing :: "string list \<Rightarrow> string list \<Rightarrow> KeyService \<Rightarrow> KeyService" where
  "disconnect_missing currentDevices connected s =
     fold (\<lambda>sn s'. if sn \<notin> set currentDevices then handleDeviceDisconnection sn s' else s')
       connected s"

definition handleDeviceStatus :: "device_status \<Rightarrow> KeyService \<Rightarrow> KeyService" where
  "handleDeviceStatus devices s =
     (let r = (case devices of
                 NotAnArray \<Rightarrow> ([], s)
               | Devices ds \<Rightarrow> fold (noteDevice (connectedDevices s)) ds ([], s));
          currentDevices = fst r;
          s2 = disconnect_missing currentDevices (connectedDevices s) (snd r)
      in s2\<lparr>connectedDevices := currentDevices\<rparr>)"

text \<open>\<^verbatim>\<open>registerKeys\<close> stores a new \<^verbatim>\<open>keyData\<close> object for every key.\<close>

definition registerKey :: "string \<Rightarrow> key \<Rightarrow> KeyService \<Rightarrow> KeyService" where
  "registerKey sn k s =
     s\<lparr>activeKeys :=
         AList.update (keyId_of sn (uid k))
           \<lparr> obj = ks_nextObject s, serialNumber = sn, keyUid = uid k, config = k,
             state = inactive, lastUpdate = None, retryCount = 0 \<rparr>
           (activeKeys s),
       ks_nextObject := Suc (ks_nextObject s)\<rparr>"

definition registerKeys :: "string \<Rightarrow> key list \<Rightarrow> KeyService \<Rightarrow> KeyService" where
  "registerKeys sn ks s =
     (let s1 = (if \<not> isDeviceConnected s sn
                then ks_emit (deviceConnected sn) (s\<lparr>connectedDevices := set_add sn (connectedDevices s)\<rparr>)
                else s)
      in fold (registerKey sn) ks s1)"


subsection \<open>Notions used to state the properties\<close>

text \<open>The serial numbers a status report names (an entry without one names none).\<close>

definition reported :: "device_status \<Rightarrow> string list" where
  "reported devices =
     (case devices of
        NotAnArray \<Rightarrow> []
      | Devices ds \<Rightarrow> concat (map (\<lambda>dev. case dev of Device None \<Rightarrow> []
                                     | Device (Some sn) \<Rightarrow> if sn = [] then [] else [sn]) ds))"

text \<open>
  The timer that the render queue has on record for a key; the pending timers other
  than that one, which a \<^verbatim>\<open>queueRender\<close> for the key leaves alone; and the timer of
  a render scheduled at \<open>now\<close> for time \<open>t\<close>. \<open>handles_fresh\<close> is an invariant of the
  timer table: \<^verbatim>\<open>setTimeout\<close> never gives out the handle of a pending timer again.
\<close>

definition queued_timeout :: "string \<Rightarrow> KeyService \<Rightarrow> nat option" where
  "queued_timeout kid s =
     (case map_of (renderQueue s) kid of None \<Rightarrow> None | Some queued \<Rightarrow> timeout queued)"

definition unrecorded :: "string \<Rightarrow> KeyService \<Rightarrow> ks_timer list" where
  "unrecorded kid s = filter (\<lambda>t. Some (handle t) \<noteq> queued_timeout kid s) (ks_timers s)"

definition scheduled :: "nat \<Rightarrow> int \<Rightarrow> string \<Rightarrow> (string \<times> json) list \<Rightarrow> int \<Rightarrow> ks_timer" where
  "scheduled h t kid rd now =
     \<lparr> handle = h, due = t,
       callback = ExecuteRender \<lparr> keyId = kid, renderData = rd, queued_at = now,
                                  timeout = Some h \<rparr> \<rparr>"

definition handles_fresh :: "KeyService \<Rightarrow> bool" where
  "handles_fresh s = list_all (\<lambda>t. handle t < ks_nextTimer s) (ks_timers s)"

text \<open>
  Two more invariants of the state. The \<^verbatim>\<open>Map\<close>s \<^verbatim>\<open>activeKeys\<close> and
  \<^verbatim>\<open>lastRenderTime\<close> have one entry for a key (\<open>keys_distinct\<close>). A render task
  names the handle that \<^verbatim>\<open>setTimeout\<close> returned for it, so the handles named by the
  tasks of the render queue, of the pending timers and of the draw calls in flight have
  all been given out (\<open>records_given_out\<close>).
\<close>

definition keys_distinct :: "KeyService \<Rightarrow> bool" where
  "keys_distinct s =
     (distinct (map fst (activeKeys s)) \<and> distinct (map fst (lastRenderTime s)))"

definition given_out :: "nat \<Rightarrow> renderTask \<Rightarrow> bool" where
  "given_out n task = (case timeout task of None \<Rightarrow> True | Some h \<Rightarrow> h < n)"

definition queue_given_out :: "nat \<Rightarrow> KeyService \<Rightarrow> bool" where
  "queue_given_out n s = list_all (\<lambda>(kid, task). given_out n task) (renderQueue s)"

fun callback_given_out :: "nat \<Rightarrow> ks_callback \<Rightarrow> bool" where
  "callback_given_out n (ExecuteRender task) = given_out n task"
| "callback_given_out n (Retry kd) = True"

definition records_given_out :: "KeyService \<Rightarrow> bool" where
  "records_given_out s =
     (queue_given_out (ks_nextTimer s) s
      \<and> list_all (\<lambda>f. given_out (ks_nextTimer s) (fl_task f)) (inFlight s)
      \<and> list_all (\<lambda>t. callback_given_out (ks_nextTimer s) (callback t)) (ks_timers s))"

text \<open>
  The retry chain of a key. \<open>kd_id\<close> is the id under which \<^verbatim>\<open>registerKeys\<close> stores
  a \<^verbatim>\<open>keyData\<close>. \<open>last_failure\<close> is the time of the failure reported last: the
  timestamp of the \<open>keyError\<close> event, if that is the last event. \<open>sweeps\<close>: the
  periodic cleanup runs at the given times. \<open>draw_rejected ws now message s s1\<close>: the
  draw call that was made between \<open>s\<close> and \<open>s1\<close>, if one was made, is rejected at
  \<open>now\<close> with \<open>message\<close>, after the cleanup has run at the times \<open>ws\<close> while the
  call was waiting. \<open>update_fails\<close>: \<^verbatim>\<open>updateKey\<close> is called for the key at \<open>t0\<close>
  and the draw call it makes, if it makes one, is rejected \<open>lat\<close> later.
  \<open>retry_fails (Round wa late wb lat message)\<close>: the cleanup runs at the times \<open>wa\<close>,
  then the timer that was scheduled last fires \<open>late\<close> after it is due, and the draw
  call that is then made, if one is made, is rejected \<open>lat\<close> later with \<open>message\<close>,
  the cleanup having run at the times \<open>wb\<close> in between. \<open>failing_retries\<close>: a
  sequence of such rounds, with nothing else in between. A round is transient when its
  delays are not negative and its message is not one that marks the key dead.
\<close>

definition kd_id :: "keyData \<Rightarrow> string" where
  "kd_id kd = keyId_of (serialNumber kd) (keyUid kd)"

definition last_failure :: "KeyService \<Rightarrow> int" where
  "last_failure s =
     (case rev (ks_emitted s) of
        keyError sn kuid message t # es \<Rightarrow> t
      | _ \<Rightarrow> 0)"

definition sweeps :: "int list \<Rightarrow> KeyService \<Rightarrow> KeyService" where
  "sweeps ws s = fold performCleanup ws s"

definition draw_rejected :: "int list \<Rightarrow> int \<Rightarrow> string \<Rightarrow> KeyService \<Rightarrow> KeyService \<Rightarrow> KeyService" where
  "draw_rejected ws now message s s1 =
     (if length (inFlight s) < length (inFlight s1)
      then snd (draw_settles (length (inFlight s)) (DrawFailed message) now (sweeps ws s1))
      else s1)"

definition update_fails ::
  "int \<Rightarrow> int list \<Rightarrow> int \<Rightarrow> string \<Rightarrow> keyData \<Rightarrow> json \<Rightarrow> (string \<times> json) list \<Rightarrow> KeyService \<Rightarrow> KeyService" where
  "update_fails t0 ws lat message kd dat ro s =
     draw_rejected ws (t0 + lat) message s
       (snd (updateKey t0 (serialNumber kd) (keyUid kd) dat ro s))"

datatype retry_round = Round "int list" int "int list" int string

fun retry_fails :: "retry_round \<Rightarrow> KeyService \<Rightarrow> KeyService" where
  "retry_fails (Round wa late wb lat message) s =
     (let s1 = sweeps wa s
      in (case find (\<lambda>t. handle t = ks_nextTimer s1 - 1) (ks_timers s1) of
            None \<Rightarrow> s1
          | Some t \<Rightarrow>
              draw_rejected wb (due t + late + lat) message s1
                (timer_fires (handle t) (due t + late) s1)))"

definition failing_retries :: "retry_round list \<Rightarrow> KeyService \<Rightarrow> KeyService" where
  "failing_retries rs s = fold retry_fails rs s"

fun transient_round :: "retry_round \<Rightarrow> bool" where
  "transient_round (Round wa late wb lat message) =
     (0 \<le> late \<and> 0 \<le> lat \<and> \<not> terminal message)"

text \<open>
  What \<^verbatim>\<open>handleKeyError\<close> does with a transient failure of a registered key, from
  state \<open>s\<close> to state \<open>S\<close> at time \<open>now\<close>: the failure is counted; up to
  \<^verbatim>\<open>maxRetries\<close> failures one timer is added, the retry, due \<^verbatim>\<open>retryDelay\<close>
  times the count later, and the key is left as it is; beyond that no timer is added
  and the key is marked failed.
\<close>

definition failure_handled :: "string \<Rightarrow> keyData \<Rightarrow> int \<Rightarrow> KeyService \<Rightarrow> KeyService \<Rightarrow> bool" where
  "failure_handled kid kd now s S =
     (error_count kid S = Suc (error_count kid s)
      \<and> (if Suc (error_count kid s) \<le> maxRetries (ks_opts s)
         then ks_timers S =
                ks_timers s @
                  [\<lparr> handle = ks_nextTimer s,
                     due = now + retryDelay (ks_opts s) * int (Suc (error_count kid s)),
                     callback = Retry kd \<rparr>]
            \<and> map_of (activeKeys S) kid = Some kd
         else ks_timers S = ks_timers s
            \<and> map_of (activeKeys S) kid = Some (kd\<lparr>state := failed\<rparr>)))"

text \<open>
  Where the chain stands, in a run that started in state \<open>s\<close>. \<open>added_timers s S\<close>
  are the timers pending in \<open>S\<close> that were set after \<open>s\<close>: those whose handle had
  not been given out in \<open>s\<close>. \<open>awaiting_retry kd n s S\<close>: in \<open>S\<close> the key is
  registered as before, \<open>n\<close> failures are counted, and of the timers set since \<open>s\<close>
  one is pending, the retry, which was set last and is due \<^verbatim>\<open>retryDelay * n\<close> after
  the last failure; the draw calls that wait for an answer are those of \<open>s\<close>.
  \<open>gave_up kd s S\<close>: the key is marked failed, one failure more than
  \<^verbatim>\<open>maxRetries\<close> is counted, and none of the timers set since \<open>s\<close> is pending.
  \<open>retry_ready\<close> is what the chain needs besides to go on: the device is connected,
  the state store has a state for the key, the last attempt started before the failure
  was reported, and the invariants hold, the render queue naming no handle that was
  given out after \<open>s\<close>.
\<close>

definition added_timers :: "KeyService \<Rightarrow> KeyService \<Rightarrow> ks_timer list" where
  "added_timers s S = filter (\<lambda>t. ks_nextTimer s \<le> handle t) (ks_timers S)"

definition awaiting_retry :: "keyData \<Rightarrow> nat \<Rightarrow> KeyService \<Rightarrow> KeyService \<Rightarrow> bool" where
  "awaiting_retry kd n s S =
     (map_of (activeKeys S) (kd_id kd) = Some kd
      \<and> error_count (kd_id kd) S = n
      \<and> added_timers s S =
          [\<lparr> handle = ks_nextTimer S - 1,
             due = last_failure S + retryDelay (ks_opts s) * int n,
             callback = Retry kd \<rparr>]
      \<and> inFlight S = inFlight s)"

definition gave_up :: "keyData \<Rightarrow> KeyService \<Rightarrow> KeyService \<Rightarrow> bool" where
  "gave_up kd s S =
     (map_of (activeKeys S) (kd_id kd) = Some (kd\<lparr>state := failed\<rparr>)
      \<and> error_count (kd_id kd) S = Suc (maxRetries (ks_opts s))
      \<and> added_timers s S = []
      \<and> inFlight S = inFlight s)"

definition retry_ready :: "keyData \<Rightarrow> KeyService \<Rightarrow> KeyService \<Rightarrow> bool" where
  "retry_ready kd s S =
     (serialNumber kd \<in> set (connectedDevices S)
      \<and> truthy (getKeyState (keyUid kd) (stateManager S))
      \<and> (case map_of (lastRenderTime S) (kd_id kd) of
            None \<Rightarrow> True
          | Some t \<Rightarrow> t \<le> last_failure S)
      \<and> handles_fresh S
      \<and> keys_distinct S
      \<and> queue_given_out (ks_nextTimer s) S
      \<and> ks_nextTimer s \<le> ks_nextTimer S
      \<and> ks_opts S = ks_opts s)"

subsection \<open>Scenarios\<close>

text \<open>
  One device with one registered key, and the \<^verbatim>\<open>keyData\<close> of that key; the same
  after a first successful render, requested at time 1000 and answered at 1005; two
  devices with one key each, and a status report.
\<close>

definition flex_key :: key where
  "flex_key = \<lparr> uid = ''7'',
                 props = [(''cid'', JStr ''com.sondrenjaastad.leagueoflegends.summoner''),
                          (''title'', JStr ''Summoner'')] \<rparr>"

definition flex_keyData :: keyData where
  "flex_keyData =
     \<lparr> obj = 0, serialNumber = ''FLEX01'', keyUid = ''7'', config = flex_key,
       state = inactive, lastUpdate = None, retryCount = 0 \<rparr>"

definition registered_example :: KeyService where
  "registered_example = registerKeys ''FLEX01'' [flex_key] (setPlugin (ks_new 0))"

definition rendered_example :: KeyService where
  "rendered_example =
     snd (draw_settles 0 Drawn 1005
            (snd (updateKey 1000 ''FLEX01'' ''7'' (JObj [(''level'', JNum 30)]) []
                    registered_example)))"

definition two_devices_example :: KeyService where
  "two_devices_example =
     registerKeys ''FLEX02'' [\<lparr> uid = ''1'', props = [] \<rparr>] registered_example"

definition status_report_example :: device_status where
  "status_report_example = Devices [Device (Some ''FLEX02''), Device None]"

text \<open>
  Three requests through \<^verbatim>\<open>queueRender\<close> for one key: the first is drawn at once,
  the second arrives while that draw call waits for its answer, the third after the
  answer; all within one throttle interval.
\<close>

definition overlapping_example :: KeyService where
  "overlapping_example =
     snd (queueRender 1050 Queued ''FLEX01-7'' [(''title'', JStr ''C'')]
       (snd (draw_settles 0 Drawn 1030
          (snd (queueRender 1020 Queued ''FLEX01-7'' [(''title'', JStr ''B'')]
             (snd (queueRender 1000 Queued ''FLEX01-7'' [(''title'', JStr ''A'')]
                     registered_example)))))))"

text \<open>
  A device with two keys on which the draw of the second key has just been rejected, so
  that a retry of that key is pending; and three rounds of failing retries, the cleanup
  running at 5000, before the third retry fires, and at 10000, while the draw call of
  the third retry waits.
\<close>

definition wallet_key :: key where
  "wallet_key = \<lparr> uid = ''9'',
                   props = [(''cid'', JStr ''com.sondrenjaastad.leagueoflegends.wallet'')] \<rparr>"

definition wallet_keyData :: keyData where
  "wallet_keyData =
     \<lparr> obj = 1, serialNumber = ''FLEX01'', keyUid = ''9'', config = wallet_key,
       state = inactive, lastUpdate = None, retryCount = 0 \<rparr>"

definition busy_device_example :: KeyService where
  "busy_device_example =
     update_fails 900 [] 5 ''Device busy'' wallet_keyData (JObj []) []
       (registerKeys ''FLEX01'' [flex_key, wallet_key] (setPlugin (ks_new 0)))"

definition busy_rounds :: "retry_round list" where
  "busy_rounds =
     [Round [] 0 [] 5 ''Device busy'',
      Round [] 3 [] 5 ''Device busy'',
      Round [5000] 0 [10000] 3000 ''Draw timed out'']"

text \<open>
  After the first render a second device connects while the client is connected:
  \<^verbatim>\<open>renderConnectionState\<close> queues the text that says so for every active key, and
  the draw of it for the key of the first device is rejected.
\<close>

definition connection_text_example :: KeyService where
  "connection_text_example =
     snd (draw_settles 0 (DrawFailed ''Device busy'') 5010
            (snd (queueRender 5000 Queued ''FLEX01-7''
                    (prepareRenderData (flex_keyData\<lparr>state := active, lastUpdate := Some 1005\<rparr>)
                       JNull (getConnectionStateRenderOptions (JStr ''connected'')))
                    rendered_example)))"

text \<open>A service whose throttle interval is longer than its retry delay.\<close>

definition slow_throttle_example :: KeyService where
  "slow_throttle_example =
     registered_example\<lparr>ks_opts := ks_default_options\<lparr>throttleInterval := 5000\<rparr>\<rparr>"

section \<open>StateManager: preferences and persistence\<close>

text \<open>
  C10. \<^verbatim>\<open>getPreference(key, defaultValue)\<close> returns the stored value when it is
  truthy and \<^verbatim>\<open>defaultValue\<close> when the stored value is falsy, which is also what it
  returns once the key is removed: a stored \<^verbatim>\<open>false\<close>, \<^verbatim>\<open>0\<close>, \<^verbatim>\<open>''\<close> or
  \<^verbatim>\<open>null\<close> cannot be told from an absent preference. (\<^verbatim>\<open>defaultValue\<close> is
  \<^verbatim>\<open>null\<close> when the caller passes none.)
\<close>

theorem getPreference_falsy_default:
  assumes "map_of (preferences s) key = Some v"
  shows "getPreference key arg s = (if truthy v then v else default_param arg)
       \<and> getPreference key arg (s\<lparr>preferences := AList.delete key (preferences s)\<rparr>)
           = default_param arg
       \<and> \<not> truthy (JBool False) \<and> \<not> truthy (JNum 0) \<and> \<not> truthy (JStr []) \<and> \<not> truthy JNull"
  using assms by (simp add: getPreference_def js_or_def AList.delete_conv')

theorem getPreference_falsy_default_witness:
  "getPreference ''cycle'' (Some (JStr ''solo'')) (setPreference ''cycle'' (JNum 0) (sm_new 0))
     = JStr ''solo''
   \<and> getPreference ''cycle'' None (setPreference ''cycle'' (JBool False) (sm_new 0)) = JNull
   \<and> getPreference ''cycle'' (Some (JStr ''solo'')) (setPreference ''cycle'' (JStr ''flex'') (sm_new 0))
     = JStr ''flex''"
  using getPreference_falsy_default [of "setPreference ''cycle'' (JNum 0) (sm_new 0)" "''cycle''" "JNum 0" "Some (JStr ''solo'')"]
    getPreference_falsy_default [of "setPreference ''cycle'' (JBool False) (sm_new 0)" "''cycle''" "JBool False" None]
    getPreference_falsy_default [of "setPreference ''cycle'' (JStr ''flex'') (sm_new 0)" "''cycle''" "JStr ''flex''" "Some (JStr ''solo'')"]
  by (simp add: setPreference_def sm_new_def markDirty_def default_param_def)

subsection \<open>The state file\<close>

lemma set_fromEntries: "set (fromEntries m) = set m"
  by (auto simp: fromEntries_def)

lemma distinct_fromEntries:
  assumes "distinct (map fst m)"
  shows "distinct (map fst (fromEntries m))"
proof -
  have d: "distinct m" and inj: "inj_on fst (set m)"
    using assms by (simp_all add: distinct_map)
  have "distinct (fromEntries m)"
    using d by (auto simp: fromEntries_def)
  then show ?thesis
    using inj by (simp add: distinct_map set_fromEntries)
qed

lemma map_of_fromEntries:
  assumes "distinct (map fst m)"
  shows "map_of (fromEntries m) = map_of m"
  using assms distinct_fromEntries [OF assms] set_fromEntries [of m]
  by (simp add: map_of_inject_set)

lemma map_of_filter_value:
  "distinct (map fst xs) \<Longrightarrow>
   map_of (filter (\<lambda>(k, v). P v) xs) k =
     (case map_of xs k of None \<Rightarrow> None | Some e \<Rightarrow> if P e then Some e else None)"
proof (induction xs)
  case Nil
  then show ?case by simp
next
  case (Cons p xs)
  obtain k' e' where p: "p = (k', e')" by (cases p)
  show ?case
  proof (cases "k = k'")
    case True
    with Cons.prems p have "k \<notin> fst ` set xs" by auto
    then have "map_of (filter (\<lambda>(k, v). P v) xs) k = None"
      by (auto simp: map_of_eq_None_iff)
    with True p show ?thesis by simp
  next
    case False
    with Cons p show ?thesis by simp
  qed
qed

text \<open>
  C2, as the code has it. Saving a dirty state whose metadata has a version and loading
  the file gives back the same key, connection and preference entries. Of the cache
  entries it gives back exactly those with a timestamp whose age at load time is below
  \<^verbatim>\<open>maxCacheAge\<close>; the others are absent. \<^verbatim>\<open>loadState\<close> does not look at the entry's
  \<^verbatim>\<open>expiry\<close>.
\<close>

theorem saveState_loadState_roundtrip:
  assumes "isDirty s" and "version (metadata s) \<noteq> []"
    and "distinct (map fst (keys s))" and "distinct (map fst (connections s))"
    and "distinct (map fst (preferences s))" and "distinct (map fst (cache s))"
  shows "\<exists>s2. save_then_load t1 t2 f s s0 = Inr s2
      \<and> map_of (keys s2) = map_of (keys s)
      \<and> map_of (connections s2) = map_of (connections s)
      \<and> map_of (preferences s2) = map_of (preferences s)
      \<and> (\<forall>k. map_of (cache s2) k =
            (case map_of (cache s) k of
               None \<Rightarrow> None
             | Some e \<Rightarrow>
                 if cache_entry_valid t2 (maxCacheAge (options s0)) e then Some e else None))"
proof -
  have c: "map_of (filter (\<lambda>(key, value). cache_entry_valid t2 (maxCacheAge (options s0)) value)
                     (fromEntries (cache s))) k =
           (case map_of (cache s) k of
               None \<Rightarrow> None
             | Some e \<Rightarrow>
                 if cache_entry_valid t2 (maxCacheAge (options s0)) e then Some e else None)" for k
    using map_of_filter_value [OF distinct_fromEntries [OF assms(6)],
        of "cache_entry_valid t2 (maxCacheAge (options s0))" k]
    by (simp add: map_of_fromEntries [OF assms(6)])
  show ?thesis
    using assms c
    by (simp add: save_then_load_def saveState_def loadState_def serializable_def
        map_of_fromEntries)
qed

lemma expired_entry_example_eval:
  "expired_entry_example =
     \<lparr> options = sm_default_options, keys = [], connections = [], preferences = [],
       cache = [(''summoner'', \<lparr> data = JStr ''Faker'', timestamp = 1000, expiry = Some 2000 \<rparr>)],
       metadata = \<lparr> lastSave = None, version = ''1.0.0'', created = 0 \<rparr>,
       isDirty = True \<rparr>"
  by (simp add: expired_entry_example_def setCache_def sm_new_def markDirty_def)

theorem saveState_loadState_roundtrip_witness:
  "isDirty expired_entry_example \<and> version (metadata expired_entry_example) \<noteq> []
   \<and> (\<exists>s2. save_then_load 1500 400000 NoFile expired_entry_example (sm_new 400000) = Inr s2
         \<and> map_of (preferences s2) = map_of (preferences expired_entry_example)
         \<and> map_of (cache s2) ''summoner'' = None)"
proof -
  have h: "isDirty expired_entry_example" "version (metadata expired_entry_example) \<noteq> []"
    "distinct (map fst (keys expired_entry_example))"
    "distinct (map fst (connections expired_entry_example))"
    "distinct (map fst (preferences expired_entry_example))"
    "distinct (map fst (cache expired_entry_example))"
    by (simp_all add: expired_entry_example_eval)
  from saveState_loadState_roundtrip [OF h, of 1500 400000 NoFile "sm_new 400000"]
  obtain s2 where r: "save_then_load 1500 400000 NoFile expired_entry_example (sm_new 400000) = Inr s2"
    and p: "map_of (preferences s2) = map_of (preferences expired_entry_example)"
    and c: "\<forall>k. map_of (cache s2) k =
              (case map_of (cache expired_entry_example) k of
                 None \<Rightarrow> None
               | Some e \<Rightarrow>
                   if cache_entry_valid 400000 (maxCacheAge (options (sm_new 400000))) e
                   then Some e else None)"
    by blast
  have "map_of (cache s2) ''summoner'' = None"
    using c
    by (simp add: expired_entry_example_eval cache_entry_valid_def sm_new_def
        sm_default_options_def)
  with h r p show ?thesis by blast
qed

text \<open>
  C2 as stated fails: the entry below is saved at 1500 and loaded at 5000, three seconds
  after its time to live ended at 2000, and it is still in the cache after the reload.
\<close>

theorem reload_keeps_expired_entry:
  "save_then_load 1500 5000 NoFile expired_entry_example (sm_new 5000) =
     Inr \<lparr> options = sm_default_options, keys = [], connections = [], preferences = [],
           cache = [(''summoner'',
                     \<lparr> data = JStr ''Faker'', timestamp = 1000, expiry = Some 2000 \<rparr>)],
           metadata = \<lparr> lastSave = Some 1500, version = ''1.0.0'', created = 0 \<rparr>,
           isDirty = False \<rparr>"
  by (simp add: expired_entry_example_eval save_then_load_def saveState_def loadState_def
      serializable_def fromEntries_def is_array_index_def sm_new_def sm_default_options_def
      cache_entry_valid_def)

section \<open>LoLDataService: connection state, polling and reconnection\<close>

lemma setConnectionState_same: "setConnectionState now (isConnected s) reason s = s"
  by (simp add: setConnectionState_def)

lemma report_all_emitted:
  "emitted (report_all rs s) = emitted s @ actual_changes (isConnected s) rs"
proof (induction rs arbitrary: s)
  case Nil
  then show ?case by simp
next
  case (Cons r rs)
  obtain now connected reason where r: "r = (now, connected, reason)"
    by (cases r)
  show ?case
    unfolding r by (simp add: Cons.IH setConnectionState_def emit_def)
qed

text \<open>
  C6. Whatever the sequence of connection-state reports, the \<open>connectionChanged\<close>
  events emitted are exactly one per report that differs from the state before it, in
  order; reporting the state the service is already in changes nothing at all.
\<close>

theorem connectionChanged_once_per_change:
  "emitted (report_all rs s) = emitted s @ actual_changes (isConnected s) rs
   \<and> setConnectionState now (isConnected s) reason s = s"
  by (simp add: report_all_emitted setConnectionState_same)

lemma actual_changes_example:
  "actual_changes False
     [(1, True, ''a''), (2, True, ''b''), (3, False, ''c''), (4, False, ''d''), (5, True, ''e'')]
   = [connectionChanged True ''a'' 1, connectionChanged False ''c'' 3,
      connectionChanged True ''e'' 5]"
  by simp

subsection \<open>Game phase\<close>

lemma poll_sends_handleEndpointPoll:
  "poll_sends (handleEndpointPoll now cfg r s) = poll_sends s"
  by (auto simp: handleEndpointPoll_def handleEndpointPoll_resume_def poll_sends_def emit_def
      handleGameStateChange_def Let_def split: response.splits)

lemma gameflow_poll_emitted:
  assumes "poll_sends s" and "type cfg = ''gameflow''"
  shows "filter is_gameStateChanged (emitted (handleEndpointPoll now cfg (Response dat) s)) =
         filter is_gameStateChanged (emitted s) @
           (if strict_equal dat (map_option cached_data (map_of (dataCache s) ''gameflow'')) then []
            else [gameStateChanged dat (map_option cached_data (map_of (dataCache s) ''gameflow'')) now])"
  using assms
  by (simp add: handleEndpointPoll_def handleEndpointPoll_resume_def emit_def
      handleGameStateChange_def Let_def)

lemma gameflow_poll_cache:
  assumes "poll_sends s" and "type cfg = ''gameflow''"
  shows "map_option cached_data (map_of (dataCache (handleEndpointPoll now cfg (Response dat) s)) ''gameflow'')
         = Some dat"
  using assms
  by (simp add: handleEndpointPoll_def handleEndpointPoll_resume_def emit_def
      handleGameStateChange_def Let_def AList.update_conv')

lemma poll_all_emitted:
  assumes "poll_sends s" and "type cfg = ''gameflow''"
  shows "filter is_gameStateChanged (emitted (poll_all cfg ps s)) =
         filter is_gameStateChanged (emitted s) @
           phase_changes (map_option cached_data (map_of (dataCache s) ''gameflow'')) ps"
  using assms(1)
proof (induction ps arbitrary: s)
  case Nil
  then show ?case by simp
next
  case (Cons p ps)
  obtain now dat where p: "p = (now, dat)" by (cases p)
  have sends: "poll_sends (handleEndpointPoll now cfg (Response dat) s)"
    using Cons.prems by (simp add: poll_sends_handleEndpointPoll)
  show ?case
    unfolding p
    using Cons.IH [OF sends] gameflow_poll_emitted [OF Cons.prems assms(2), of now dat]
      gameflow_poll_cache [OF Cons.prems assms(2), of now dat]
    by simp
qed

lemma connected_example_eval:
  "isConnected connected_example" "axios connected_example = Some ''https://127.0.0.1:51000''"
  "dataCache connected_example = []"
  "lol_timers connected_example = enumerate 0 (map Poller (endpointConfig lol_default_options))"
  "endpointPollers connected_example =
     [(''/lol-summoner/v1/current-summoner'', 0), (''/lol-gameflow/v1/gameflow-phase'', 1),
      (''/lol-champ-select/v1/session'', 2), (''/lol-ranked/v1/current-ranked-stats'', 3),
      (''/lol-inventory/v1/wallet'', 4)]"
  "emitted connected_example = [connectionChanged True ''Connected successfully'' 0]"
  by (simp_all add: connected_example_def attemptConnection_def startEndpointPolling_def
      startPoller_def setConnectionState_def setupAxiosClient_def emit_def Let_def lol_new_def
      lol_default_options_def)

text \<open>
  C7, as the code has it. For successful polls of the game-phase endpoint by a connected
  service, the \<open>gameStateChanged\<close> events emitted are exactly one per polled value
  that is not strictly equal to the value cached before it. So ChampSelect, ChampSelect,
  InProgress gives one event when ChampSelect is already cached, and two when the cache
  has no phase yet: the first poll then differs from \<^verbatim>\<open>undefined\<close>.
\<close>

theorem gameStateChanged_only_on_difference:
  assumes "poll_sends s" and "type cfg = ''gameflow''"
  shows "filter is_gameStateChanged (emitted (poll_all cfg ps s)) =
           filter is_gameStateChanged (emitted s) @
             phase_changes (map_option cached_data (map_of (dataCache s) ''gameflow'')) ps
       \<and> phase_changes (Some (JStr ''ChampSelect''))
            [(t1, JStr ''ChampSelect''), (t2, JStr ''ChampSelect''), (t3, JStr ''InProgress'')]
           = [gameStateChanged (JStr ''InProgress'') (Some (JStr ''ChampSelect'')) t3]
       \<and> phase_changes None
            [(t1, JStr ''ChampSelect''), (t2, JStr ''ChampSelect''), (t3, JStr ''InProgress'')]
           = [gameStateChanged (JStr ''ChampSelect'') None t1,
              gameStateChanged (JStr ''InProgress'') (Some (JStr ''ChampSelect'')) t3]"
  using poll_all_emitted [OF assms] by simp

theorem gameStateChanged_only_on_difference_witness:
  "poll_sends connected_example \<and> type gameflow = ''gameflow''
   \<and> filter is_gameStateChanged (emitted (poll_all gameflow champ_select_polls
        (handleEndpointPoll 50 gameflow (Response (JStr ''ChampSelect'')) connected_example)))
     = [gameStateChanged (JStr ''ChampSelect'') None 50,
        gameStateChanged (JStr ''InProgress'') (Some (JStr ''ChampSelect'')) 4100]"
proof -
  have sends: "poll_sends connected_example"
    by (simp add: poll_sends_def connected_example_eval)
  have ty: "type gameflow = ''gameflow''"
    by (simp add: gameflow_def)
  show ?thesis
    using gameStateChanged_only_on_difference [OF sends ty,
        of "(50, JStr ''ChampSelect'') # champ_select_polls" 1 2 3]
    by (simp add: sends ty connected_example_eval champ_select_polls_def)
qed

text \<open>
  C7 as stated fails: on a service that has just connected, the three polls
  ChampSelect, ChampSelect, InProgress emit two \<open>gameStateChanged\<close> events, not one.
\<close>

theorem first_poll_emits_gameStateChanged:
  "filter is_gameStateChanged (emitted (poll_all gameflow champ_select_polls connected_example))
     = [gameStateChanged (JStr ''ChampSelect'') None 100,
        gameStateChanged (JStr ''InProgress'') (Some (JStr ''ChampSelect'')) 4100]"
proof -
  have sends: "poll_sends connected_example"
    by (simp add: poll_sends_def connected_example_eval)
  have ty: "type gameflow = ''gameflow''"
    by (simp add: gameflow_def)
  show ?thesis
    unfolding poll_all_emitted [OF sends ty]
    by (simp add: connected_example_eval champ_select_polls_def)
qed

subsection \<open>Disconnection\<close>

lemma fold_clearInterval:
  "fold (\<lambda>(endpoint, poller). clearInterval poller) ps s =
     s\<lparr>lol_timers := filter (\<lambda>t. fst t \<notin> snd ` set ps) (lol_timers s)\<rparr>"
proof (induction ps arbitrary: s)
  case Nil
  then show ?case by simp
next
  case (Cons p ps)
  obtain e h where p: "p = (e, h)" by (cases p)
  have "fold (\<lambda>(endpoint, poller). clearInterval poller) (p # ps) s =
        fold (\<lambda>(endpoint, poller). clearInterval poller) ps (clearInterval h s)"
    by (simp add: p)
  also have "\<dots> = (clearInterval h s)
      \<lparr>lol_timers := filter (\<lambda>t. fst t \<notin> snd ` set ps) (lol_timers (clearInterval h s))\<rparr>"
    by (rule Cons.IH)
  also have "\<dots> = s\<lparr>lol_timers := filter (\<lambda>t. fst t \<notin> snd ` set (p # ps)) (lol_timers s)\<rparr>"
    by (simp add: clearInterval_def p conj_commute)
  finally show ?case .
qed

lemma stopEndpointPolling_eq:
  "stopEndpointPolling s =
     s\<lparr>lol_timers := filter (\<lambda>t. fst t \<notin> snd ` set (endpointPollers s)) (lol_timers s),
       endpointPollers := []\<rparr>"
  by (simp add: stopEndpointPolling_def fold_clearInterval)

lemma handleDisconnection_eq:
  "handleDisconnection now s =
     (setConnectionState now False ''League process stopped'' s)
       \<lparr>lol_timers := filter (\<lambda>t. fst t \<notin> snd ` set (endpointPollers s)) (lol_timers s),
        endpointPollers := [],
        port := None, password := None, baseURL := None, axios := None\<rparr>"
  by (simp add: handleDisconnection_def stopEndpointPolling_eq resetConnectionDetails_def
      setConnectionState_def emit_def Let_def)

lemma handleDisconnection_no_pollers:
  assumes "pollers_tracked s"
  shows "poll_timers (handleDisconnection now s) = []"
proof -
  have "\<forall>t \<in> set (lol_timers s). is_Poller (snd t) \<longrightarrow> fst t \<in> snd ` set (endpointPollers s)"
    using assms unfolding pollers_tracked_def poll_timers_def list_all_iff by fastforce
  then have "filter (\<lambda>t. is_Poller (snd t))
               (filter (\<lambda>t. fst t \<notin> snd ` set (endpointPollers s)) (lol_timers s)) = []"
    by (simp add: filter_empty_conv) blast
  then show ?thesis
    by (simp add: handleDisconnection_eq poll_timers_def)
qed

lemma handleDisconnection_fields:
  "\<not> isConnected (handleDisconnection now s)"
  "axios (handleDisconnection now s) = None"
  "endpointPollers (handleDisconnection now s) = []"
  "dataCache (handleDisconnection now s) = dataCache s"
  "lol_opts (handleDisconnection now s) = lol_opts s"
  by (simp_all add: handleDisconnection_eq setConnectionState_def emit_def Let_def)

lemma poll_after_disconnection:
  "handleEndpointPoll t cfg r (handleDisconnection now s) = handleDisconnection now s"
  by (simp add: handleEndpointPoll_def poll_sends_def handleDisconnection_fields)

lemma fold_startPoller:
  "fold startPoller cs s =
     s\<lparr>lol_timers := lol_timers s @ enumerate (lol_nextTimer s) (map Poller cs),
       lol_nextTimer := lol_nextTimer s + length cs,
       endpointPollers := fold (\<lambda>(h, c). AList.update (endpoint c) h)
                            (enumerate (lol_nextTimer s) cs) (endpointPollers s)\<rparr>"
proof (induction cs arbitrary: s)
  case Nil
  then show ?case by simp
next
  case (Cons c cs)
  have step: "startPoller c s =
      s\<lparr>lol_timers := lol_timers s @ [(lol_nextTimer s, Poller c)],
        lol_nextTimer := Suc (lol_nextTimer s),
        endpointPollers := AList.update (endpoint c) (lol_nextTimer s) (endpointPollers s)\<rparr>"
    by (simp add: startPoller_def Let_def)
  have "fold startPoller (c # cs) s = fold startPoller cs (startPoller c s)"
    by simp
  also note Cons.IH
  finally show ?case
    by (simp add: step)
qed

lemma poll_timers_reconnect:
  assumes "poll_timers s = []"
  shows "poll_timers (snd (attemptConnection now (Established c v) s)) =
           enumerate (lol_nextTimer s) (map Poller (endpointConfig (lol_opts s)))"
proof -
  have "filter (\<lambda>t. is_Poller (snd t)) (enumerate n (map Poller cs)) = enumerate n (map Poller cs)"
    for n cs
    by (induction cs arbitrary: n) simp_all
  then show ?thesis
    using assms
    by (simp add: attemptConnection_def startEndpointPolling_def fold_startPoller poll_timers_def
        setConnectionState_def setupAxiosClient_def emit_def Let_def)
qed

lemma attemptConnection_dataCache:
  "dataCache (snd (attemptConnection now outcome s)) = dataCache s"
  by (cases outcome)
    (simp_all add: attemptConnection_def startEndpointPolling_def fold_startPoller
      setConnectionState_def setupAxiosClient_def emit_def Let_def)

lemma attemptConnection_failed_no_pollers:
  assumes "fst (attemptConnection now outcome s) \<noteq> None"
  shows "poll_timers (snd (attemptConnection now outcome s)) = poll_timers s
       \<and> \<not> isConnected (snd (attemptConnection now outcome s))"
  using assms
  by (cases outcome)
    (simp_all add: attemptConnection_def poll_timers_def
      setConnectionState_def setupAxiosClient_def emit_def Let_def)

lemma attemptConnection_established:
  "fst (attemptConnection now (Established c v) s) = None
   \<and> isConnected (snd (attemptConnection now (Established c v) s))"
  by (simp add: attemptConnection_def startEndpointPolling_def fold_startPoller
      setConnectionState_def setupAxiosClient_def emit_def Let_def)

lemma pollers_tracked_connected_example: "pollers_tracked connected_example"
  by (simp add: pollers_tracked_def poll_timers_def connected_example_eval
      lol_default_options_def)

text \<open>
  C3, as the code has it. When \<^verbatim>\<open>handleDisconnection\<close> runs on a service that has its
  poll timers on record, the service is disconnected, no poll timer is left, and a poll
  started afterwards does nothing. The data cache is kept as it is, by the disconnection
  and by the next connection attempt. A failed attempt starts no poll timer; a successful
  one connects and starts one new timer per configured endpoint.
\<close>

theorem handleDisconnection_halts_polling:
  assumes "pollers_tracked s"
  shows "\<not> isConnected (handleDisconnection now s)
       \<and> endpointPollers (handleDisconnection now s) = []
       \<and> poll_timers (handleDisconnection now s) = []
       \<and> handleEndpointPoll t cfg r (handleDisconnection now s) = handleDisconnection now s
       \<and> dataCache (handleDisconnection now s) = dataCache s
       \<and> (fst (attemptConnection t outcome (handleDisconnection now s)) \<noteq> None \<longrightarrow>
            poll_timers (snd (attemptConnection t outcome (handleDisconnection now s))) = []
            \<and> \<not> isConnected (snd (attemptConnection t outcome (handleDisconnection now s))))
       \<and> isConnected (snd (attemptConnection t (Established c v) (handleDisconnection now s)))
       \<and> poll_timers (snd (attemptConnection t (Established c v) (handleDisconnection now s))) =
            enumerate (lol_nextTimer s) (map Poller (endpointConfig (lol_opts s)))
       \<and> dataCache (snd (attemptConnection t outcome (handleDisconnection now s))) = dataCache s"
proof -
  let ?d = "handleDisconnection now s"
  have none: "poll_timers ?d = []"
    by (rule handleDisconnection_no_pollers [OF assms])
  have next_timer: "lol_nextTimer ?d = lol_nextTimer s"
    by (simp add: handleDisconnection_eq setConnectionState_def emit_def Let_def)
  show ?thesis
    using none next_timer handleDisconnection_fields [of now s]
      poll_after_disconnection [of t cfg r now s]
      attemptConnection_failed_no_pollers [of t outcome ?d]
      attemptConnection_established [of t c v ?d]
      poll_timers_reconnect [OF none, of t c v]
      attemptConnection_dataCache [of t outcome ?d]
    by simp
qed

theorem handleDisconnection_halts_polling_witness:
  "pollers_tracked connected_example
   \<and> poll_timers (handleDisconnection 6000 connected_example) = []
   \<and> fst (attemptConnection 9000 not_found (handleDisconnection 6000 connected_example)) \<noteq> None
   \<and> poll_timers (snd (attemptConnection 9000 not_found
                         (handleDisconnection 6000 connected_example))) = []"
  using handleDisconnection_halts_polling
          [OF pollers_tracked_connected_example, of 6000 9000 gameflow "Response JNull" not_found]
  by (simp add: pollers_tracked_connected_example attemptConnection_def not_found_def)

text \<open>
  The continuation of a poll has no guard: a response that arrives after the
  disconnection, for a request sent before it, is cached and announced all the same.
\<close>

lemma late_response_is_applied:
  "map_of (dataCache (handleEndpointPoll_resume t cfg (Response dat) (handleDisconnection now s)))
     (type cfg) = Some \<lparr> cached_data = dat, cached_timestamp = t \<rparr>
   \<and> dataUpdated (type cfg) (endpoint cfg) dat t
         (map_option cached_data (map_of (dataCache s) (type cfg)))
       \<in> set (emitted (handleEndpointPoll_resume t cfg (Response dat) (handleDisconnection now s)))"
  by (simp add: handleEndpointPoll_resume_def handleDisconnection_fields emit_def
      handleGameStateChange_def Let_def AList.update_conv')

text \<open>
  C3 as stated fails: after a disconnection and a successful reconnection the cache is
  not fresh; it still holds the phase polled in the earlier session.
\<close>

theorem stale_cache_after_reconnect:
  "isConnected reconnected_example
   \<and> map_of (dataCache reconnected_example) ''gameflow''
       = Some \<lparr> cached_data = JStr ''ChampSelect'', cached_timestamp = 100 \<rparr>"
  by (simp add: reconnected_example_def attemptConnection_established attemptConnection_dataCache
      handleDisconnection_fields handleEndpointPoll_def handleEndpointPoll_resume_def
      poll_sends_def connected_example_eval gameflow_def emit_def handleGameStateChange_def Let_def)

subsection \<open>Reconnection\<close>

text \<open>The attempt that reaches the maximum and fails schedules no retry.\<close>

lemma last_attempt_schedules_no_retry:
  assumes "Suc (connectionAttempts s) = maxReconnectAttempts (lol_opts s)"
    and "fst (attemptConnection now outcome (s\<lparr>connectionAttempts := Suc (connectionAttempts s)\<rparr>)) \<noteq> None"
  shows "lol_timers (handleReconnection now outcome s) = lol_timers s
       \<and> connectionAttempts (handleReconnection now outcome s) = maxReconnectAttempts (lol_opts s)
       \<and> \<not> isConnected (handleReconnection now outcome s)"
  using assms
  by (cases outcome)
    (simp_all add: handleReconnection_def attemptConnection_def setConnectionState_def
      setupAxiosClient_def emit_def Let_def)

lemma exhausted_example_eval:
  "connectionAttempts exhausted_example = 5" "\<not> isConnected exhausted_example"
  "lol_opts exhausted_example = lol_default_options"
  by (simp_all add: exhausted_example_def handleProcessCheck_def handleReconnection_def
      attemptConnection_def setConnectionState_def not_found_def lol_new_def
      lol_default_options_def)

text \<open>
  C4. Once the attempt count has reached the maximum, a liveness check that finds the
  client process running while the service is disconnected makes no connection attempt:
  \<^verbatim>\<open>handleProcessCheck\<close> calls \<^verbatim>\<open>handleReconnection\<close>, which returns at its first
  line, and the state is unchanged whatever the client would have answered.
\<close>

theorem exhausted_attempts_block_process_check:
  assumes "maxReconnectAttempts (lol_opts s) \<le> connectionAttempts s" and "\<not> isConnected s"
  shows "handleProcessCheck now True outcome s = s"
  using assms by (simp add: handleProcessCheck_def handleReconnection_def)

theorem exhausted_attempts_block_process_check_witness:
  "maxReconnectAttempts (lol_opts exhausted_example) \<le> connectionAttempts exhausted_example
   \<and> \<not> isConnected exhausted_example
   \<and> handleProcessCheck 15000 True
        (Established \<lparr> found_port = ''51000'', found_password = ''secret'',
                       found_protocol = ''https'' \<rparr> ''15.10.1'') exhausted_example
       = exhausted_example"
  using exhausted_attempts_block_process_check [of exhausted_example 15000
      "Established \<lparr> found_port = ''51000'', found_password = ''secret'',
                      found_protocol = ''https'' \<rparr> ''15.10.1''"]
  by (simp add: exhausted_example_eval lol_default_options_def)

section \<open>KeyService: key ids\<close>

lemma split_nonempty: "split sep s \<noteq> []"
  by (induction s) (auto split: list.splits)

lemma split_prefix:
  "sep \<notin> set a \<Longrightarrow> split sep (a @ sep # b) = a # split sep b"
  by (induction a) (auto split: list.splits)

lemma split_no_sep: "sep \<notin> set a \<Longrightarrow> split sep a = [a]"
  by (induction a) (auto split: list.splits)

lemma hd_split: "hd (split sep s) = takeWhile (\<lambda>c. c \<noteq> sep) s"
  by (induction s) (auto split: list.splits simp: split_nonempty)

lemma split_takeWhile:
  "\<exists>rest. split sep s = takeWhile (\<lambda>c. c \<noteq> sep) s # rest"
  using hd_split [of sep s] split_nonempty [of sep s]
  by (cases "split sep s") auto

text \<open>
  C9, as the code has it. A key id is \<^verbatim>\<open>serialNumber + '-' + keyUid\<close>; it is decoded
  by splitting at \<^verbatim>\<open>'-'\<close> and taking the first two components. For a serial number
  without a dash the decoding gives back the serial number, and as key uid the part of
  the uid before its first dash: the pair is recovered when the uid has no dash either.
\<close>

theorem keyId_roundtrip:
  assumes "CHR ''-'' \<notin> set sn"
  shows "fst (keyId_parts (keyId_of sn kuid)) = sn
       \<and> snd (keyId_parts (keyId_of sn kuid)) = Some (takeWhile (\<lambda>c. c \<noteq> CHR ''-'') kuid)
       \<and> (CHR ''-'' \<notin> set kuid \<longrightarrow> keyId_parts (keyId_of sn kuid) = (sn, Some kuid))"
proof -
  obtain rest where r: "split CHR ''-'' kuid = takeWhile (\<lambda>c. c \<noteq> CHR ''-'') kuid # rest"
    using split_takeWhile by blast
  have "split CHR ''-'' (keyId_of sn kuid) = sn # split CHR ''-'' kuid"
    using split_prefix [OF assms, of kuid] by (simp add: keyId_of_def)
  then have p: "keyId_parts (keyId_of sn kuid) = (sn, Some (takeWhile (\<lambda>c. c \<noteq> CHR ''-'') kuid))"
    by (simp add: keyId_parts_def r)
  have "CHR ''-'' \<notin> set kuid \<Longrightarrow> takeWhile (\<lambda>c. c \<noteq> CHR ''-'') kuid = kuid"
    by (auto simp: takeWhile_eq_all_conv)
  with p show ?thesis by simp
qed

theorem keyId_roundtrip_witness:
  "CHR ''-'' \<notin> set ''FLEX01'' \<and> CHR ''-'' \<notin> set ''17''
   \<and> keyId_parts (keyId_of ''FLEX01'' ''17'') = (''FLEX01'', Some ''17'')"
  using keyId_roundtrip [of "''FLEX01''" "''17''"] by simp

text \<open>
  C9 as stated fails: with a serial number that has no dash, a key uid with a dash is
  not recovered.
\<close>

theorem keyUid_with_dash_not_recovered:
  "CHR ''-'' \<notin> set ''FLEX01''
   \<and> keyId_parts (keyId_of ''FLEX01'' ''a-b'') = (''FLEX01'', Some ''a'')"
  by (simp add: keyId_parts_def keyId_of_def)

section \<open>KeyService: devices\<close>

lemma startsWith_append: "startsWith (p @ r) p"
  by (induction p) simp_all

lemma removeKey_fields:
  "activeKeys (removeKey kid s) = AList.delete kid (activeKeys s)"
  "ks_emitted (removeKey kid s) = ks_emitted s"
  "connectedDevices (removeKey kid s) = connectedDevices s"
  by (simp_all add: removeKey_def clearTimeout_def Let_def split: option.splits)

lemma fold_removeKey_fields:
  "fst ` set (activeKeys (fold removeKey ks s)) = fst ` set (activeKeys s) - set ks
   \<and> ks_emitted (fold removeKey ks s) = ks_emitted s
   \<and> connectedDevices (fold removeKey ks s) = connectedDevices s"
proof (induction ks arbitrary: s)
  case Nil
  show ?case by simp
next
  case (Cons k ks)
  have "fst ` set (AList.delete k (activeKeys s)) = fst ` set (activeKeys s) - {k}"
    by (auto simp: AList.delete_eq image_iff)
  then show ?case
    using Cons.IH [of "removeKey k s"] by (auto simp: removeKey_fields)
qed

lemma handleDeviceDisconnection_fields:
  "fst ` set (activeKeys (handleDeviceDisconnection sn s)) =
     {kid \<in> fst ` set (activeKeys s). \<not> startsWith kid (sn @ ''-'')}"
  "ks_emitted (handleDeviceDisconnection sn s) = ks_emitted s @ [deviceDisconnected sn]"
  "connectedDevices (handleDeviceDisconnection sn s) = connectedDevices s"
  by (auto simp: handleDeviceDisconnection_def ks_emit_def fold_removeKey_fields Let_def image_iff)

lemma disconnect_missing_Cons:
  "disconnect_missing cur (x # xs) s =
     disconnect_missing cur xs (if x \<notin> set cur then handleDeviceDisconnection x s else s)"
  by (simp add: disconnect_missing_def)

lemma disconnect_missing_fields:
  "fst ` set (activeKeys (disconnect_missing cur xs s)) =
     {kid \<in> fst ` set (activeKeys s). \<forall>sn \<in> set xs - set cur. \<not> startsWith kid (sn @ ''-'')}
   \<and> ks_emitted (disconnect_missing cur xs s) =
     ks_emitted s @ map deviceDisconnected (filter (\<lambda>sn. sn \<notin> set cur) xs)"
proof (induction xs arbitrary: s)
  case Nil
  show ?case by (simp add: disconnect_missing_def)
next
  case (Cons x xs)
  show ?case
  proof (cases "x \<in> set cur")
    case True
    then show ?thesis
      using Cons.IH [of s] by (auto simp: disconnect_missing_Cons)
  next
    case False
    then show ?thesis
      using Cons.IH [of "handleDeviceDisconnection x s"]
      by (auto simp: disconnect_missing_Cons handleDeviceDisconnection_fields)
  qed
qed


lemma noteDevice_step:
  "set (fst (noteDevice c d (cur, s))) = set cur \<union> set (reported (Devices [d]))
   \<and> activeKeys (snd (noteDevice c d (cur, s))) = activeKeys s
   \<and> connectedDevices (snd (noteDevice c d (cur, s))) = connectedDevices s
   \<and> count_list (ks_emitted (snd (noteDevice c d (cur, s)))) (deviceDisconnected sn) =
       count_list (ks_emitted s) (deviceDisconnected sn)"
proof (cases d)
  case (Device o_sn)
  show ?thesis
  proof (cases o_sn)
    case None
    with Device show ?thesis by (simp add: noteDevice_def reported_def)
  next
    case (Some x)
    show ?thesis
    proof (cases "x = []")
      case True
      with Device Some show ?thesis by (simp add: noteDevice_def reported_def)
    next
      case False
      with Device Some show ?thesis
        by (auto simp: noteDevice_def reported_def set_add_def ks_emit_def)
    qed
  qed
qed

lemma reported_Cons:
  "set (reported (Devices (d # ds))) = set (reported (Devices [d])) \<union> set (reported (Devices ds))"
  by (simp add: reported_def)

lemma fold_noteDevice:
  "set (fst (fold (noteDevice c) ds (cur, s))) = set cur \<union> set (reported (Devices ds))
   \<and> activeKeys (snd (fold (noteDevice c) ds (cur, s))) = activeKeys s
   \<and> connectedDevices (snd (fold (noteDevice c) ds (cur, s))) = connectedDevices s
   \<and> count_list (ks_emitted (snd (fold (noteDevice c) ds (cur, s)))) (deviceDisconnected sn) =
       count_list (ks_emitted s) (deviceDisconnected sn)"
proof (induction ds arbitrary: cur s)
  case Nil
  show ?case by (simp add: reported_def)
next
  case (Cons d ds)
  obtain cur' s' where n: "noteDevice c d (cur, s) = (cur', s')"
    by (cases "noteDevice c d (cur, s)")
  show ?case
    using Cons.IH [of cur' s'] noteDevice_step [of c d cur s sn]
    by (simp add: n reported_Cons [of d ds] Un_assoc)
qed

lemma count_list_map_filter:
  assumes "distinct xs" and "inj f"
  shows "count_list (map f (filter P xs)) (f x) = (if x \<in> set xs \<and> P x then 1 else 0)"
  using assms(1)
proof (induction xs)
  case Nil
  then show ?case by simp
next
  case (Cons a xs)
  then show ?case
    using assms(2) by (auto simp: inj_eq)
qed

lemma handleDeviceStatus_ignores_missing_serial:
  "handleDeviceStatus (Devices (ds1 @ Device None # ds2)) s =
   handleDeviceStatus (Devices (ds1 @ ds2)) s"
  by (simp add: handleDeviceStatus_def noteDevice_def)

text \<open>
  C8. After \<^verbatim>\<open>handleDeviceStatus\<close> the connected devices are exactly the serial
  numbers the report names (none when the argument is not an array). For every device
  that was connected and is not named, exactly one \<open>deviceDisconnected\<close> event is
  emitted and no key id of that device is registered any more. An entry without a
  serial number changes nothing.
\<close>

theorem handleDeviceStatus_disconnects_missing:
  assumes "distinct (connectedDevices s)"
  shows "set (connectedDevices (handleDeviceStatus devices s)) = set (reported devices)
       \<and> (\<forall>sn \<in> set (connectedDevices s) - set (reported devices).
            count_list (ks_emitted (handleDeviceStatus devices s)) (deviceDisconnected sn) =
              count_list (ks_emitted s) (deviceDisconnected sn) + 1
            \<and> (\<forall>kuid. map_of (activeKeys (handleDeviceStatus devices s)) (keyId_of sn kuid) = None))
       \<and> handleDeviceStatus (Devices (ds1 @ Device None # ds2)) s =
           handleDeviceStatus (Devices (ds1 @ ds2)) s"
proof -
  define r where "r = (case devices of NotAnArray \<Rightarrow> ([], s)
                       | Devices ds \<Rightarrow> fold (noteDevice (connectedDevices s)) ds ([], s))"
  have r_props: "set (fst r) = set (reported devices)
      \<and> activeKeys (snd r) = activeKeys s
      \<and> connectedDevices (snd r) = connectedDevices s
      \<and> count_list (ks_emitted (snd r)) (deviceDisconnected sn) =
          count_list (ks_emitted s) (deviceDisconnected sn)" for sn
  proof (cases devices)
    case NotAnArray
    then show ?thesis by (simp add: r_def reported_def)
  next
    case (Devices ds)
    then show ?thesis
      using fold_noteDevice [of "connectedDevices s" ds "[]" s sn] by (simp add: r_def)
  qed
  have h: "handleDeviceStatus devices s =
           (disconnect_missing (fst r) (connectedDevices s) (snd r))\<lparr>connectedDevices := fst r\<rparr>"
    by (simp add: handleDeviceStatus_def disconnect_missing_def r_def Let_def)
  have inj: "inj deviceDisconnected"
    by (simp add: inj_def)
  have first: "set (connectedDevices (handleDeviceStatus devices s)) = set (reported devices)"
    using r_props by (simp add: h)
  have second: "count_list (ks_emitted (handleDeviceStatus devices s)) (deviceDisconnected sn) =
          count_list (ks_emitted s) (deviceDisconnected sn) + 1
        \<and> (\<forall>kuid. map_of (activeKeys (handleDeviceStatus devices s)) (keyId_of sn kuid) = None)"
    if sn: "sn \<in> set (connectedDevices s) - set (reported devices)" for sn
  proof -
    have em: "ks_emitted (handleDeviceStatus devices s) =
        ks_emitted (snd r) @
          map deviceDisconnected (filter (\<lambda>sn. sn \<notin> set (fst r)) (connectedDevices s))"
      using disconnect_missing_fields [of "fst r" "connectedDevices s" "snd r"] by (simp add: h)
    have "count_list (map deviceDisconnected (filter (\<lambda>sn. sn \<notin> set (fst r)) (connectedDevices s)))
            (deviceDisconnected sn) = 1"
      using sn r_props [of sn] count_list_map_filter [OF assms inj, of "\<lambda>sn. sn \<notin> set (fst r)" sn]
      by simp
    then have c: "count_list (ks_emitted (handleDeviceStatus devices s)) (deviceDisconnected sn) =
          count_list (ks_emitted s) (deviceDisconnected sn) + 1"
      using r_props [of sn] by (simp add: em)
    have ak: "fst ` set (activeKeys (handleDeviceStatus devices s)) =
        {kid \<in> fst ` set (activeKeys s).
           \<forall>sn \<in> set (connectedDevices s) - set (reported devices). \<not> startsWith kid (sn @ ''-'')}"
      using disconnect_missing_fields [of "fst r" "connectedDevices s" "snd r"] r_props [of sn]
      by (simp add: h)
    have "keyId_of sn kuid \<notin> fst ` set (activeKeys (handleDeviceStatus devices s))" for kuid
    proof -
      have "startsWith (keyId_of sn kuid) (sn @ ''-'')"
        using startsWith_append [of "sn @ ''-''" kuid] by (simp add: keyId_of_def)
      with sn show ?thesis
        unfolding ak by blast
    qed
    then have "map_of (activeKeys (handleDeviceStatus devices s)) (keyId_of sn kuid) = None" for kuid
      by (simp add: map_of_eq_None_iff)
    with c show ?thesis by blast
  qed
  from first second handleDeviceStatus_ignores_missing_serial [of ds1 ds2 s]
  show ?thesis by blast
qed

lemma registered_example_eval:
  "registered_example =
     (ks_new 0)\<lparr>plugin := True, connectedDevices := [''FLEX01''],
                ks_emitted := [deviceConnected ''FLEX01''], ks_nextObject := 1,
                activeKeys := [(''FLEX01-7'', flex_keyData)]\<rparr>"
  by (simp add: registered_example_def registerKeys_def registerKey_def setPlugin_def
      isDeviceConnected_def ks_new_def ks_emit_def set_add_def keyId_of_def flex_key_def
      flex_keyData_def)

lemma two_devices_example_eval:
  "connectedDevices two_devices_example = [''FLEX01'', ''FLEX02'']"
  "ks_emitted two_devices_example = [deviceConnected ''FLEX01'', deviceConnected ''FLEX02'']"
  "map fst (activeKeys two_devices_example) = [''FLEX01-7'', ''FLEX02-1'']"
  by (simp_all add: two_devices_example_def registered_example_eval registerKeys_def
      registerKey_def isDeviceConnected_def ks_emit_def set_add_def keyId_of_def)

theorem handleDeviceStatus_disconnects_missing_witness:
  "distinct (connectedDevices two_devices_example)
   \<and> ''FLEX01'' \<in> set (connectedDevices two_devices_example) - set (reported status_report_example)
   \<and> set (connectedDevices (handleDeviceStatus status_report_example two_devices_example))
       = {''FLEX02''}
   \<and> count_list (ks_emitted (handleDeviceStatus status_report_example two_devices_example))
        (deviceDisconnected ''FLEX01'') = 1
   \<and> map_of (activeKeys (handleDeviceStatus status_report_example two_devices_example))
        ''FLEX01-7'' = None"
proof -
  have d: "distinct (connectedDevices two_devices_example)"
    by (simp add: two_devices_example_eval)
  have m: "''FLEX01'' \<in> set (connectedDevices two_devices_example)
             - set (reported status_report_example)"
    by (simp add: two_devices_example_eval reported_def status_report_example_def)
  have r: "set (reported status_report_example) = {''FLEX02''}"
    by (simp add: reported_def status_report_example_def)
  have k: "keyId_of ''FLEX01'' ''7'' = ''FLEX01-7''"
    by (simp add: keyId_of_def)
  from handleDeviceStatus_disconnects_missing [OF d, of status_report_example "[]" "[]"] m
  have "set (connectedDevices (handleDeviceStatus status_report_example two_devices_example))
          = set (reported status_report_example)"
    and "count_list (ks_emitted (handleDeviceStatus status_report_example two_devices_example))
           (deviceDisconnected ''FLEX01'')
         = count_list (ks_emitted two_devices_example) (deviceDisconnected ''FLEX01'') + 1"
    and "map_of (activeKeys (handleDeviceStatus status_report_example two_devices_example))
           (keyId_of ''FLEX01'' ''7'') = None"
    by blast+
  then show ?thesis
    using d m by (simp add: r k two_devices_example_eval)
qed


section \<open>KeyService: the timer table\<close>

text \<open>
  Handles are given out in increasing order, so no pending timer has a handle that
  \<^verbatim>\<open>setTimeout\<close> will give out again. This holds of the new service and is kept by
  everything the service does.
\<close>

lemma handles_fresh_cong:
  "ks_timers s' = ks_timers s \<Longrightarrow> ks_nextTimer s' = ks_nextTimer s
   \<Longrightarrow> handles_fresh s' = handles_fresh s"
  by (simp add: handles_fresh_def)

lemma handles_fresh_setTimeout:
  "handles_fresh s \<Longrightarrow> handles_fresh (setTimeout cb delay now s)"
  by (auto simp: handles_fresh_def setTimeout_def list_all_iff)

lemma handles_fresh_clearTimeout:
  "handles_fresh s \<Longrightarrow> handles_fresh (clearTimeout h s)"
  by (auto simp: handles_fresh_def clearTimeout_def list_all_iff split: option.splits)

lemma executeRender_timers:
  "ks_timers (snd (executeRender now k task s)) = ks_timers s"
  "ks_nextTimer (snd (executeRender now k task s)) = ks_nextTimer s"
  by (simp_all add: executeRender_def Let_def ks_emit_def split: sum.splits)

lemma handles_fresh_executeRender:
  "handles_fresh s \<Longrightarrow> handles_fresh (snd (executeRender now k task s))"
  by (simp add: handles_fresh_cong [OF executeRender_timers])

lemma handles_fresh_queueRender:
  assumes "handles_fresh s"
  shows "handles_fresh (snd (queueRender now k kid rd s))"
proof -
  define s1 where "s1 = (case map_of (renderQueue s) kid of None \<Rightarrow> s
                         | Some queued \<Rightarrow> clearTimeout (timeout queued) s)"
  define task where "task = \<lparr> keyId = kid, renderData = rd, queued_at = now, timeout = None \<rparr>"
  have s1: "handles_fresh s1"
    using assms by (simp add: s1_def handles_fresh_clearTimeout split: option.splits)
  show ?thesis
  proof (cases "getThrottleDelay now kid s1 > 0")
    case True
    have "handles_fresh (setTimeout (ExecuteRender (task\<lparr>timeout := Some (ks_nextTimer s1)\<rparr>))
                           (getThrottleDelay now kid s1) now s1)"
      using s1 by (rule handles_fresh_setTimeout)
    then show ?thesis
      using True
      by (simp add: queueRender_def s1_def [symmetric] task_def [symmetric] Let_def
          handles_fresh_def)
  next
    case False
    obtain r s2 where e: "executeRender now k task s1 = (r, s2)"
      by (cases "executeRender now k task s1")
    have "handles_fresh s2"
      using handles_fresh_executeRender [OF s1, of now k task] by (simp add: e)
    then show ?thesis
      using False
      by (simp add: queueRender_def s1_def [symmetric] task_def [symmetric] Let_def e
          split: option.splits)
  qed
qed

lemma handles_fresh_handleKeyError:
  "handles_fresh s \<Longrightarrow> handles_fresh (handleKeyError now kid message s)"
  by (auto simp: handleKeyError_def Let_def handles_fresh_def setTimeout_def list_all_iff
      split: option.splits)

lemma handles_fresh_resume:
  "handles_fresh (queueRender_resume task s) = handles_fresh s"
  "handles_fresh (updateKey_resume now kid kd s) = handles_fresh s"
  "handles_fresh (executeRender_resume now d task s) = handles_fresh s"
  by (simp_all add: handles_fresh_def queueRender_resume_def updateKey_resume_def
      executeRender_resume_def Let_def ks_emit_def split: draw_outcome.splits)

lemma handles_fresh_updateKey:
  assumes "handles_fresh s"
  shows "handles_fresh (snd (updateKey now sn kuid dat ro s))"
proof -
  have q: "handles_fresh (snd (queueRender now k kid rd
             (s\<lparr>stateManager := updateKeyState now kuid dat (stateManager s)\<rparr>)))" for k kid rd
    using assms by (intro handles_fresh_queueRender) (simp add: handles_fresh_def)
  have "handles_fresh s2"
    if "queueRender now k kid rd
          (s\<lparr>stateManager := updateKeyState now kuid dat (stateManager s)\<rparr>) = (p, s2)"
    for k kid rd p s2
    using q [of k kid rd] that by simp
  then show ?thesis
    using assms
    by (auto simp: updateKey_def Let_def handles_fresh_handleKeyError handles_fresh_resume
        split: option.splits prod.splits progress.splits)
qed

lemma handles_fresh_draw_settles:
  assumes "handles_fresh s"
  shows "handles_fresh (snd (draw_settles i d now s))"
proof -
  have r: "handles_fresh (executeRender_resume now d' task
             (s\<lparr>inFlight := take i (inFlight s) @ drop (Suc i) (inFlight s)\<rparr>))" for task d'
    using assms by (simp add: handles_fresh_resume) (simp add: handles_fresh_def)
  show ?thesis
    using assms r
    by (auto simp: draw_settles_def Let_def handles_fresh_resume handles_fresh_handleKeyError
        split: draw_outcome.splits continuation.splits)
qed

lemma handles_fresh_timer_fires:
  assumes "handles_fresh s"
  shows "handles_fresh (timer_fires h now s)"
proof -
  have c: "handles_fresh (clearTimeout (Some h) s)"
    using assms by (rule handles_fresh_clearTimeout)
  show ?thesis
    using assms c handles_fresh_executeRender [OF c] handles_fresh_updateKey [OF c]
    by (simp add: timer_fires_def retry_def Let_def split: option.splits ks_callback.splits)
qed

lemma handles_fresh_removeKey:
  "handles_fresh s \<Longrightarrow> handles_fresh (removeKey kid s)"
  by (auto simp: removeKey_def Let_def handles_fresh_def clearTimeout_def list_all_iff
      split: option.splits)

lemma handles_fresh_fold_removeKey:
  "handles_fresh s \<Longrightarrow> handles_fresh (fold removeKey ks s)"
  by (induction ks arbitrary: s) (simp_all add: handles_fresh_removeKey)

lemma handles_fresh_performCleanup:
  "handles_fresh s \<Longrightarrow> handles_fresh (performCleanup now s)"
  using handles_fresh_fold_removeKey [of s]
  by (simp add: performCleanup_def Let_def handles_fresh_def)

lemma handles_fresh_handleDeviceDisconnection:
  "handles_fresh s \<Longrightarrow> handles_fresh (handleDeviceDisconnection sn s)"
  using handles_fresh_fold_removeKey [of s]
  by (simp add: handleDeviceDisconnection_def Let_def handles_fresh_def ks_emit_def)

lemma handles_fresh_disconnect_missing:
  "handles_fresh s \<Longrightarrow> handles_fresh (disconnect_missing cur xs s)"
  by (induction xs arbitrary: s)
    (simp_all add: disconnect_missing_def handles_fresh_handleDeviceDisconnection)

lemma handles_fresh_noteDevice:
  "handles_fresh (snd acc) \<Longrightarrow> handles_fresh (snd (noteDevice c d acc))"
  by (simp add: noteDevice_def handles_fresh_def ks_emit_def split: device.splits option.splits)

lemma handles_fresh_fold_noteDevice:
  "handles_fresh (snd acc) \<Longrightarrow> handles_fresh (snd (fold (noteDevice c) ds acc))"
  by (induction ds arbitrary: acc) (simp_all add: handles_fresh_noteDevice)

lemma handles_fresh_handleDeviceStatus:
  assumes "handles_fresh s"
  shows "handles_fresh (handleDeviceStatus devices s)"
proof -
  define r where "r = (case devices of NotAnArray \<Rightarrow> ([], s)
                       | Devices ds \<Rightarrow> fold (noteDevice (connectedDevices s)) ds ([], s))"
  have "handles_fresh (snd r)"
    using assms handles_fresh_fold_noteDevice [of "([], s)"]
    by (simp add: r_def split: device_status.splits)
  then have "handles_fresh (disconnect_missing (fst r) (connectedDevices s) (snd r))"
    by (rule handles_fresh_disconnect_missing)
  then show ?thesis
    by (simp add: handleDeviceStatus_def r_def [symmetric] Let_def handles_fresh_def)
qed

lemma handles_fresh_registerKeys:
  assumes "handles_fresh s"
  shows "handles_fresh (registerKeys sn ks s)"
proof -
  have "handles_fresh s' \<Longrightarrow> handles_fresh (fold (registerKey sn) ks s')" for s'
    by (induction ks arbitrary: s') (simp_all add: registerKey_def handles_fresh_def)
  then show ?thesis
    using assms by (simp add: registerKeys_def Let_def handles_fresh_def ks_emit_def)
qed

lemma handles_fresh_ks_new:
  "handles_fresh (ks_new now)"
  "handles_fresh s \<Longrightarrow> handles_fresh (setPlugin s)"
  by (simp_all add: handles_fresh_def ks_new_def setPlugin_def)

section \<open>KeyService: throttling\<close>

lemma updateKey_throttled:
  assumes "isThrottled now (keyId_of sn kuid) s"
  shows "updateKey now sn kuid dat ro s = (Some False, s)"
  using assms by (simp add: updateKey_def Let_def split: option.splits)

lemma getThrottleDelay_in_window:
  assumes "map_of (lastRenderTime s) kid = Some t0" and "t0 \<noteq> 0"
    and "now - t0 < throttleInterval (ks_opts s)"
  shows "getThrottleDelay now kid s = throttleInterval (ks_opts s) - (now - t0)"
    and "0 < getThrottleDelay now kid s"
    and "isThrottled now kid s"
  using assms by (simp_all add: getThrottleDelay_def isThrottled_def Let_def)

lemma clearTimeout_fields:
  "ks_timers (clearTimeout h s) =
     (case h of None \<Rightarrow> ks_timers s | Some n \<Rightarrow> filter (\<lambda>t. handle t \<noteq> n) (ks_timers s))"
  "lastRenderTime (clearTimeout h s) = lastRenderTime s"
  "ks_opts (clearTimeout h s) = ks_opts s"
  "renderQueue (clearTimeout h s) = renderQueue s"
  "ks_nextTimer (clearTimeout h s) = ks_nextTimer s"
  "draws (clearTimeout h s) = draws s"
  "inFlight (clearTimeout h s) = inFlight s"
  "plugin (clearTimeout h s) = plugin s"
  by (simp_all add: clearTimeout_def split: option.splits)

lemma clearTimeout_queued:
  "ks_timers (clearTimeout (queued_timeout kid s) s) = unrecorded kid s"
  by (cases "queued_timeout kid s") (auto simp: clearTimeout_fields unrecorded_def intro: filter_cong)

lemma queueRender_in_window:
  assumes "map_of (lastRenderTime s) kid = Some t0" and "t0 \<noteq> 0"
    and "now - t0 < throttleInterval (ks_opts s)"
  shows "queueRender now k kid rd s =
     (Resolved,
      (clearTimeout (queued_timeout kid s) s)
        \<lparr>ks_timers := unrecorded kid s @
            [scheduled (ks_nextTimer s) (t0 + throttleInterval (ks_opts s)) kid rd now],
         ks_nextTimer := Suc (ks_nextTimer s),
         renderQueue := AList.update kid
            \<lparr> keyId = kid, renderData = rd, queued_at = now, timeout = Some (ks_nextTimer s) \<rparr>
            (renderQueue s)\<rparr>)"
proof -
  let ?s1 = "clearTimeout (queued_timeout kid s) s"
  have s1: "(case map_of (renderQueue s) kid of None \<Rightarrow> s
             | Some queued \<Rightarrow> clearTimeout (timeout queued) s) = ?s1"
    by (simp add: queued_timeout_def clearTimeout_def split: option.splits)
  have lr: "map_of (lastRenderTime ?s1) kid = Some t0"
    and w: "now - t0 < throttleInterval (ks_opts ?s1)"
    using assms by (simp_all add: clearTimeout_fields)
  have delay: "getThrottleDelay now kid ?s1 = throttleInterval (ks_opts s) - (now - t0)"
    "0 < getThrottleDelay now kid ?s1"
    using getThrottleDelay_in_window [OF lr assms(2) w] by (simp_all add: clearTimeout_fields)
  show ?thesis
    unfolding queueRender_def s1 Let_def
    using delay
    by (simp add: setTimeout_def scheduled_def clearTimeout_fields(2-8) clearTimeout_queued
        add.commute)
qed

lemma queueRender_in_window_fields:
  assumes "map_of (lastRenderTime s) kid = Some t0" and "t0 \<noteq> 0"
    and "now - t0 < throttleInterval (ks_opts s)"
  shows "fst (queueRender now k kid rd s) = Resolved"
    and "ks_timers (snd (queueRender now k kid rd s)) =
           unrecorded kid s @
             [scheduled (ks_nextTimer s) (t0 + throttleInterval (ks_opts s)) kid rd now]"
    and "queued_timeout kid (snd (queueRender now k kid rd s)) = Some (ks_nextTimer s)"
    and "draws (snd (queueRender now k kid rd s)) = draws s"
    and "inFlight (snd (queueRender now k kid rd s)) = inFlight s"
    and "lastRenderTime (snd (queueRender now k kid rd s)) = lastRenderTime s"
    and "ks_opts (snd (queueRender now k kid rd s)) = ks_opts s"
    and "plugin (snd (queueRender now k kid rd s)) = plugin s"
    and "ks_nextTimer (snd (queueRender now k kid rd s)) = Suc (ks_nextTimer s)"
  by (simp_all add: queueRender_in_window [OF assms] clearTimeout_fields queued_timeout_def
      AList.update_conv')

lemma unrecorded_fresh:
  assumes "handles_fresh s"
  shows "\<forall>t \<in> set (unrecorded kid s). handle t < ks_nextTimer s"
  using assms by (auto simp: unrecorded_def handles_fresh_def list_all_iff)

text \<open>The second of two requests cancels the timer of the first, and only that one.\<close>

lemma unrecorded_after_queueRender:
  assumes "map_of (lastRenderTime s) kid = Some t0" and "t0 \<noteq> 0"
    and "now - t0 < throttleInterval (ks_opts s)" and "handles_fresh s"
  shows "unrecorded kid (snd (queueRender now k kid rd s)) = unrecorded kid s"
proof -
  have keep: "filter (\<lambda>t. handle t \<noteq> ks_nextTimer s) (unrecorded kid s) = unrecorded kid s"
    using unrecorded_fresh [OF assms(4), of kid] by (auto simp: filter_id_conv)
  have "unrecorded kid (snd (queueRender now k kid rd s)) =
        filter (\<lambda>t. handle t \<noteq> ks_nextTimer s)
          (unrecorded kid s @
             [scheduled (ks_nextTimer s) (t0 + throttleInterval (ks_opts s)) kid rd now])"
    unfolding unrecorded_def [of kid "snd (queueRender now k kid rd s)"]
      queueRender_in_window_fields(2,3) [OF assms(1-3)]
    by (auto intro: filter_cong)
  then show ?thesis
    by (simp add: keep scheduled_def)
qed

lemma find_last:
  assumes "\<forall>y \<in> set xs. \<not> P y" and "P x"
  shows "find P (xs @ [x]) = Some x"
  using assms by (induction xs) simp_all

text \<open>The newest timer is a delayed render, and it fires.\<close>

lemma fire_scheduled:
  assumes "ks_timers s = ts @ [scheduled h t kid rd queued]"
    and "\<forall>y \<in> set ts. handle y \<noteq> h" and "t \<le> now" and "plugin s"
    and "render_call (fst (keyId_parts kid)) rd = Inr call"
  shows "draws (timer_fires h now s) = draws s @ [call]"
    and "ks_timers (timer_fires h now s) = ts"
    and "inFlight (timer_fires h now s) =
           inFlight s @ [\<lparr> fl_task = \<lparr> keyId = kid, renderData = rd, queued_at = queued,
                                        timeout = Some h \<rparr>,
                            fl_then = Deferred \<rparr>]"
proof -
  let ?task = "\<lparr> keyId = kid, renderData = rd, queued_at = queued, timeout = Some h \<rparr>"
  have f: "find (\<lambda>t. handle t = h) (ks_timers s) = Some (scheduled h t kid rd queued)"
    unfolding assms(1) using assms(2) by (intro find_last) (simp_all add: scheduled_def)
  have fired: "timer_fires h now s =
      snd (executeRender now Deferred ?task (clearTimeout (Some h) s))"
    using assms(3) by (simp add: timer_fires_def f scheduled_def Let_def)
  have keep: "filter (\<lambda>t. handle t \<noteq> h) ts = ts"
    using assms(2) by (simp add: filter_id_conv)
  have cleared: "ks_timers (clearTimeout (Some h) s) = ts"
    by (simp add: clearTimeout_def assms(1) keep scheduled_def)
  show "draws (timer_fires h now s) = draws s @ [call]"
    using assms(4,5)
    by (simp add: fired executeRender_def Let_def clearTimeout_fields)
  show "ks_timers (timer_fires h now s) = ts"
    by (simp add: fired executeRender_timers cleared)
  show "inFlight (timer_fires h now s) = inFlight s @ [\<lparr> fl_task = ?task, fl_then = Deferred \<rparr>]"
    using assms(4,5)
    by (simp add: fired executeRender_def Let_def clearTimeout_fields)
qed

text \<open>
  C1, as the code has it. While the last render attempt of a key (the time
  \<^verbatim>\<open>executeRender\<close> last started for it, a time other than 0) is less than
  \<^verbatim>\<open>throttleInterval\<close> ago, a request made through \<^verbatim>\<open>updateKey\<close> is dropped: it
  returns false and changes nothing. A request made through \<^verbatim>\<open>queueRender\<close> makes
  no draw call; it cancels the timer that the render queue has on record for the key,
  leaves every other timer alone, and is scheduled for the end of the window, which is
  \<^verbatim>\<open>throttleInterval - elapsed\<close> later. A second such request, made right after the
  first, thus cancels the first: the timers that are pending after it are those that
  the first request left alone and the timer of the second. When that timer fires, with
  the plug-in instance set and a payload that can be drawn, the draw call of the second
  payload is made, and it is the only one; the first payload is never drawn.
  (\<open>handles_fresh\<close> is the invariant of the timer table.)
\<close>

theorem throttled_render_is_rescheduled:
  assumes "map_of (lastRenderTime s) kid = Some t0" and "t0 \<noteq> 0"
    and "now1 - t0 < throttleInterval (ks_opts s)"
    and "now2 - t0 < throttleInterval (ks_opts s)"
    and "handles_fresh s" and "plugin s"
    and "render_call (fst (keyId_parts kid)) rdB = Inr call"
    and "t0 + throttleInterval (ks_opts s) \<le> now3"
  shows "(kid = keyId_of sn kuid \<longrightarrow> updateKey now1 sn kuid dat ro s = (Some False, s))
       \<and> fst (queueRender now1 k1 kid rdA s) = Resolved
       \<and> draws (snd (queueRender now1 k1 kid rdA s)) = draws s
       \<and> inFlight (snd (queueRender now1 k1 kid rdA s)) = inFlight s
       \<and> ks_timers (snd (queueRender now1 k1 kid rdA s)) =
           unrecorded kid s @
             [scheduled (ks_nextTimer s) (now1 + (throttleInterval (ks_opts s) - (now1 - t0)))
                kid rdA now1]
       \<and> fst (queueRender now2 k2 kid rdB (snd (queueRender now1 k1 kid rdA s))) = Resolved
       \<and> draws (snd (queueRender now2 k2 kid rdB (snd (queueRender now1 k1 kid rdA s)))) = draws s
       \<and> inFlight (snd (queueRender now2 k2 kid rdB (snd (queueRender now1 k1 kid rdA s)))) =
           inFlight s
       \<and> ks_timers (snd (queueRender now2 k2 kid rdB (snd (queueRender now1 k1 kid rdA s)))) =
           unrecorded kid s @
             [scheduled (Suc (ks_nextTimer s)) (now2 + (throttleInterval (ks_opts s) - (now2 - t0)))
                kid rdB now2]
       \<and> draws (timer_fires (Suc (ks_nextTimer s)) now3
                  (snd (queueRender now2 k2 kid rdB (snd (queueRender now1 k1 kid rdA s))))) =
           draws s @ [call]
       \<and> ks_timers (timer_fires (Suc (ks_nextTimer s)) now3
                  (snd (queueRender now2 k2 kid rdB (snd (queueRender now1 k1 kid rdA s))))) =
           unrecorded kid s"
proof -
  let ?s1 = "snd (queueRender now1 k1 kid rdA s)"
  let ?s2 = "snd (queueRender now2 k2 kid rdB ?s1)"
  let ?end = "t0 + throttleInterval (ks_opts s)"
  note first = queueRender_in_window_fields [OF assms(1-3), of k1 rdA]
  have lr1: "map_of (lastRenderTime ?s1) kid = Some t0"
    and w1: "now2 - t0 < throttleInterval (ks_opts ?s1)"
    using first assms(1,4) by simp_all
  note second = queueRender_in_window_fields [OF lr1 assms(2) w1, of k2 rdB]
  have same: "unrecorded kid ?s1 = unrecorded kid s"
    by (rule unrecorded_after_queueRender [OF assms(1-3) assms(5)])
  have timers2: "ks_timers ?s2 =
      unrecorded kid s @ [scheduled (Suc (ks_nextTimer s)) ?end kid rdB now2]"
    using second(2) first(7,9) by (simp add: same)
  have others: "\<forall>y \<in> set (unrecorded kid s). handle y \<noteq> Suc (ks_nextTimer s)"
    using unrecorded_fresh [OF assms(5), of kid] by auto
  have pl2: "plugin ?s2"
    using first(8) second(8) assms(6) by simp
  have drop: "kid = keyId_of sn kuid \<longrightarrow> updateKey now1 sn kuid dat ro s = (Some False, s)"
    using getThrottleDelay_in_window(3) [OF assms(1-3)] by (auto simp: updateKey_throttled)
  have fired: "draws (timer_fires (Suc (ks_nextTimer s)) now3 ?s2) = draws ?s2 @ [call]"
    "ks_timers (timer_fires (Suc (ks_nextTimer s)) now3 ?s2) = unrecorded kid s"
    using fire_scheduled(1,2) [OF timers2 others assms(8) pl2 assms(7)] by simp_all
  have e1: "now1 + (throttleInterval (ks_opts s) - (now1 - t0)) = ?end"
    and e2: "now2 + (throttleInterval (ks_opts s) - (now2 - t0)) = ?end"
    by simp_all
  show ?thesis
    unfolding e1 e2
    using drop first(1,2,4,5) second(1,4,5) timers2 fired by simp
qed

lemma keyId_parts_example: "keyId_parts ''FLEX01-7'' = (''FLEX01'', Some ''7'')"
  by (simp add: keyId_parts_def)

lemma rendered_example_eval:
  "lastRenderTime rendered_example = [(''FLEX01-7'', 1000)]"
  "ks_timers rendered_example = []"
  "ks_nextTimer rendered_example = 0"
  "plugin rendered_example"
  "ks_opts rendered_example = ks_default_options"
  "queued_timeout ''FLEX01-7'' rendered_example = None"
  "connectedDevices rendered_example = [''FLEX01'']"
  "activeKeys rendered_example =
     [(''FLEX01-7'', flex_keyData\<lparr>state := active, lastUpdate := Some 1005\<rparr>)]"
  "length (draws rendered_example) = 1"
  "inFlight rendered_example = []"
  "errorCounts rendered_example = []"
  "ks_emitted rendered_example =
     [deviceConnected ''FLEX01'', keyRendered ''FLEX01'' (Some ''7'') 1005]"
  by (simp_all add: rendered_example_def registered_example_eval updateKey_def
      isDeviceConnected_def isThrottled_def ks_new_def keyId_of_def queueRender_def
      getThrottleDelay_def executeRender_def keyId_parts_example render_call_def
      prepareRenderData_def ks_emit_def Let_def applyDataToRenderData_def
      get_def flex_key_def js_or_def draw_settles_def executeRender_resume_def
      queueRender_resume_def updateKey_resume_def queued_timeout_def flex_keyData_def)

theorem throttled_render_is_rescheduled_witness:
  "map_of (lastRenderTime rendered_example) ''FLEX01-7'' = Some 1000
   \<and> throttleInterval (ks_opts rendered_example) = 100
   \<and> handles_fresh rendered_example \<and> plugin rendered_example
   \<and> unrecorded ''FLEX01-7'' rendered_example = []
   \<and> updateKey 1020 ''FLEX01'' ''7'' (JObj [(''level'', JNum 31)]) [] rendered_example
       = (Some False, rendered_example)
   \<and> ks_timers
        (snd (queueRender 1050 Queued ''FLEX01-7'' [(''title'', JStr ''B'')]
           (snd (queueRender 1020 Queued ''FLEX01-7'' [(''title'', JStr ''A'')] rendered_example))))
       = [scheduled 1 1100 ''FLEX01-7'' [(''title'', JStr ''B'')] 1050]
   \<and> draws (timer_fires 1 1100
        (snd (queueRender 1050 Queued ''FLEX01-7'' [(''title'', JStr ''B'')]
           (snd (queueRender 1020 Queued ''FLEX01-7'' [(''title'', JStr ''A'')] rendered_example)))))
       = draws rendered_example @ [draw ''FLEX01'' [(''title'', JStr ''B'')]]
   \<and> ks_timers (timer_fires 1 1100
        (snd (queueRender 1050 Queued ''FLEX01-7'' [(''title'', JStr ''B'')]
           (snd (queueRender 1020 Queued ''FLEX01-7'' [(''title'', JStr ''A'')] rendered_example)))))
       = []"
proof -
  have h: "map_of (lastRenderTime rendered_example) ''FLEX01-7'' = Some 1000"
    "(1000::int) \<noteq> 0"
    "1020 - 1000 < throttleInterval (ks_opts rendered_example)"
    "1050 - 1000 < throttleInterval (ks_opts rendered_example)"
    "handles_fresh rendered_example"
    "plugin rendered_example"
    "render_call (fst (keyId_parts ''FLEX01-7'')) [(''title'', JStr ''B'')]
       = Inr (draw ''FLEX01'' [(''title'', JStr ''B'')])"
    "1000 + throttleInterval (ks_opts rendered_example) \<le> 1100"
    by (simp_all add: rendered_example_eval ks_default_options_def handles_fresh_def
        keyId_parts_example render_call_def)
  have k: "''FLEX01-7'' = keyId_of ''FLEX01'' ''7''"
    by (simp add: keyId_of_def)
  have u: "unrecorded ''FLEX01-7'' rendered_example = []"
    by (simp add: unrecorded_def rendered_example_eval)
  show ?thesis
    using throttled_render_is_rescheduled [OF h, of "''FLEX01''" "''7''"
        "JObj [(''level'', JNum 31)]" "[]" Queued "[(''title'', JStr ''A'')]" Queued] h k u
    by (simp add: rendered_example_eval ks_default_options_def)
qed

text \<open>
  What the theorem leaves out. A draw call that is answered between two throttled
  requests takes the first of them off the render queue's record, so the second cannot
  cancel it: \<open>A\<close> is drawn at once, \<open>B\<close> is scheduled while the draw call of \<open>A\<close>
  waits, the answer to \<open>A\<close> deletes the record of \<open>B\<close>, and \<open>C\<close> is scheduled beside
  \<open>B\<close>. Both timers fire, and all three payloads are drawn.
\<close>

lemma overlapping_example_eval:
  "ks_timers overlapping_example =
     [scheduled 0 1100 ''FLEX01-7'' [(''title'', JStr ''B'')] 1020,
      scheduled 1 1100 ''FLEX01-7'' [(''title'', JStr ''C'')] 1050]"
  "plugin overlapping_example"
  "draws overlapping_example = [draw ''FLEX01'' [(''title'', JStr ''A'')]]"
  by (simp_all add: overlapping_example_def registered_example_eval
      ks_new_def queueRender_def ks_default_options_def clearTimeout_def setTimeout_def
      getThrottleDelay_def executeRender_def keyId_parts_example render_call_def
      ks_emit_def Let_def draw_settles_def executeRender_resume_def
      queueRender_resume_def scheduled_def)

lemma answered_draw_forgets_queued_render:
  "draws (timer_fires 1 1100 (timer_fires 0 1100 overlapping_example)) =
     [draw ''FLEX01'' [(''title'', JStr ''A'')], draw ''FLEX01'' [(''title'', JStr ''B'')],
      draw ''FLEX01'' [(''title'', JStr ''C'')]]"
  by (simp add: timer_fires_def overlapping_example_eval scheduled_def clearTimeout_def
      executeRender_def keyId_parts_example render_call_def Let_def)

text \<open>
  C1 as stated fails: 20 ms and 50 ms after the start of a render, with a throttle
  interval of 100 ms, two \<^verbatim>\<open>updateKey\<close> requests are dropped. No timer is pending
  before or after them, so neither payload is ever rendered.
\<close>

theorem throttled_updateKey_is_dropped:
  "map_of (lastRenderTime rendered_example) ''FLEX01-7'' = Some 1000
   \<and> throttleInterval (ks_opts rendered_example) = 100
   \<and> ks_timers rendered_example = []
   \<and> updateKey 1020 ''FLEX01'' ''7'' (JObj [(''level'', JNum 31)]) [] rendered_example
       = (Some False, rendered_example)
   \<and> updateKey 1050 ''FLEX01'' ''7'' (JObj [(''level'', JNum 32)]) [] rendered_example
       = (Some False, rendered_example)"
  by (simp add: rendered_example_eval ks_default_options_def updateKey_throttled isThrottled_def
      keyId_of_def)

section \<open>KeyService: invariants of the maps and of the render tasks\<close>

text \<open>
  \<open>keys_distinct\<close> and \<open>records_given_out\<close> hold of the new service and are kept by
  everything the service does.
\<close>

lemma keys_distinct_cong:
  "activeKeys s' = activeKeys s \<Longrightarrow> lastRenderTime s' = lastRenderTime s
   \<Longrightarrow> keys_distinct s' = keys_distinct s"
  by (simp add: keys_distinct_def)

lemma keys_distinct_clearTimeout:
  "keys_distinct (clearTimeout h s) = keys_distinct s"
  by (simp add: keys_distinct_def clearTimeout_def split: option.splits)

lemma keys_distinct_executeRender:
  "keys_distinct s \<Longrightarrow> keys_distinct (snd (executeRender now k task s))"
  by (simp add: executeRender_def Let_def ks_emit_def keys_distinct_def AList.distinct_update
      split: sum.splits)

lemma keys_distinct_queueRender:
  assumes "keys_distinct s"
  shows "keys_distinct (snd (queueRender now k kid rd s))"
proof -
  define s1 where "s1 = (case map_of (renderQueue s) kid of None \<Rightarrow> s
                         | Some queued \<Rightarrow> clearTimeout (timeout queued) s)"
  define task where "task = \<lparr> keyId = kid, renderData = rd, queued_at = now, timeout = None \<rparr>"
  have s1: "keys_distinct s1"
    using assms by (simp add: s1_def keys_distinct_clearTimeout split: option.splits)
  show ?thesis
  proof (cases "getThrottleDelay now kid s1 > 0")
    case True
    then show ?thesis
      using s1
      by (simp add: queueRender_def s1_def [symmetric] task_def [symmetric] Let_def
          keys_distinct_def setTimeout_def)
  next
    case False
    obtain r s2 where e: "executeRender now k task s1 = (r, s2)"
      by (cases "executeRender now k task s1")
    have "keys_distinct s2"
      using keys_distinct_executeRender [OF s1, of now k task] by (simp add: e)
    then show ?thesis
      using False
      by (simp add: queueRender_def s1_def [symmetric] task_def [symmetric] Let_def e
          split: option.splits)
  qed
qed

lemma keys_distinct_handleKeyError:
  "keys_distinct s \<Longrightarrow> keys_distinct (handleKeyError now kid message s)"
  by (auto simp: handleKeyError_def Let_def keys_distinct_def setTimeout_def
      AList.distinct_map_entry split: option.splits)

lemma map_fst_updated:
  "map (fst \<circ> (\<lambda>(k, d). (k, f d))) xs = map fst xs"
  by (induction xs) auto

lemma keys_distinct_resume:
  "keys_distinct (queueRender_resume task s) = keys_distinct s"
  "keys_distinct (updateKey_resume now kid kd s) = keys_distinct s"
  "keys_distinct (executeRender_resume now d task s) = keys_distinct s"
  by (simp_all add: keys_distinct_def queueRender_resume_def updateKey_resume_def
      executeRender_resume_def Let_def ks_emit_def map_fst_updated split: draw_outcome.splits)

lemma keys_distinct_updateKey:
  assumes "keys_distinct s"
  shows "keys_distinct (snd (updateKey now sn kuid dat ro s))"
proof -
  have q: "keys_distinct (snd (queueRender now k kid rd
             (s\<lparr>stateManager := updateKeyState now kuid dat (stateManager s)\<rparr>)))" for k kid rd
    using assms by (intro keys_distinct_queueRender) (simp add: keys_distinct_def)
  have "keys_distinct s2"
    if "queueRender now k kid rd
          (s\<lparr>stateManager := updateKeyState now kuid dat (stateManager s)\<rparr>) = (p, s2)"
    for k kid rd p s2
    using q [of k kid rd] that by simp
  then show ?thesis
    using assms
    by (auto simp: updateKey_def Let_def keys_distinct_handleKeyError keys_distinct_resume
        split: option.splits prod.splits progress.splits)
qed

lemma keys_distinct_draw_settles:
  assumes "keys_distinct s"
  shows "keys_distinct (snd (draw_settles i d now s))"
proof -
  have r: "keys_distinct (executeRender_resume now d' task
             (s\<lparr>inFlight := take i (inFlight s) @ drop (Suc i) (inFlight s)\<rparr>))" for task d'
    using assms by (simp add: keys_distinct_resume) (simp add: keys_distinct_def)
  show ?thesis
    using assms r
    by (auto simp: draw_settles_def Let_def keys_distinct_resume keys_distinct_handleKeyError
        split: draw_outcome.splits continuation.splits)
qed

lemma keys_distinct_timer_fires:
  assumes "keys_distinct s"
  shows "keys_distinct (timer_fires h now s)"
proof -
  have c: "keys_distinct (clearTimeout (Some h) s)"
    using assms by (simp add: keys_distinct_clearTimeout)
  show ?thesis
    using assms c keys_distinct_executeRender [OF c] keys_distinct_updateKey [OF c]
    by (simp add: timer_fires_def retry_def Let_def split: option.splits ks_callback.splits)
qed

lemma keys_distinct_removeKey:
  "keys_distinct s \<Longrightarrow> keys_distinct (removeKey kid s)"
  by (auto simp: removeKey_def Let_def keys_distinct_def clearTimeout_def AList.distinct_delete
      split: option.splits)

lemma keys_distinct_fold_removeKey:
  "keys_distinct s \<Longrightarrow> keys_distinct (fold removeKey ks s)"
  by (induction ks arbitrary: s) (simp_all add: keys_distinct_removeKey)

lemma keys_distinct_performCleanup:
  "keys_distinct s \<Longrightarrow> keys_distinct (performCleanup now s)"
  using keys_distinct_fold_removeKey [of s]
  by (simp add: performCleanup_def Let_def keys_distinct_def distinct_map_filter)

lemma keys_distinct_handleDeviceDisconnection:
  "keys_distinct s \<Longrightarrow> keys_distinct (handleDeviceDisconnection sn s)"
  using keys_distinct_fold_removeKey [of s]
  by (simp add: handleDeviceDisconnection_def Let_def keys_distinct_def ks_emit_def)

lemma keys_distinct_disconnect_missing:
  "keys_distinct s \<Longrightarrow> keys_distinct (disconnect_missing cur xs s)"
  by (induction xs arbitrary: s)
    (simp_all add: disconnect_missing_def keys_distinct_handleDeviceDisconnection)

lemma keys_distinct_noteDevice:
  "keys_distinct (snd acc) \<Longrightarrow> keys_distinct (snd (noteDevice c d acc))"
  by (simp add: noteDevice_def keys_distinct_def ks_emit_def split: device.splits option.splits)

lemma keys_distinct_fold_noteDevice:
  "keys_distinct (snd acc) \<Longrightarrow> keys_distinct (snd (fold (noteDevice c) ds acc))"
  by (induction ds arbitrary: acc) (simp_all add: keys_distinct_noteDevice)

lemma keys_distinct_handleDeviceStatus:
  assumes "keys_distinct s"
  shows "keys_distinct (handleDeviceStatus devices s)"
proof -
  define r where "r = (case devices of NotAnArray \<Rightarrow> ([], s)
                       | Devices ds \<Rightarrow> fold (noteDevice (connectedDevices s)) ds ([], s))"
  have "keys_distinct (snd r)"
    using assms keys_distinct_fold_noteDevice [of "([], s)"]
    by (simp add: r_def split: device_status.splits)
  then have "keys_distinct (disconnect_missing (fst r) (connectedDevices s) (snd r))"
    by (rule keys_distinct_disconnect_missing)
  then show ?thesis
    by (simp add: handleDeviceStatus_def r_def [symmetric] Let_def keys_distinct_def)
qed

lemma keys_distinct_registerKeys:
  assumes "keys_distinct s"
  shows "keys_distinct (registerKeys sn ks s)"
proof -
  have "keys_distinct s' \<Longrightarrow> keys_distinct (fold (registerKey sn) ks s')" for s'
    by (induction ks arbitrary: s')
      (simp_all add: registerKey_def keys_distinct_def AList.distinct_update)
  then show ?thesis
    using assms by (simp add: registerKeys_def Let_def keys_distinct_def ks_emit_def)
qed

lemma keys_distinct_ks_new:
  "keys_distinct (ks_new now)"
  "keys_distinct s \<Longrightarrow> keys_distinct (setPlugin s)"
  by (simp_all add: keys_distinct_def ks_new_def setPlugin_def)

text \<open>The handles that the render tasks name.\<close>

lemma given_out_mono:
  "given_out n task \<Longrightarrow> n \<le> m \<Longrightarrow> given_out m task"
  by (auto simp: given_out_def split: option.splits)

lemma records_given_out_cong:
  "renderQueue s' = renderQueue s \<Longrightarrow> inFlight s' = inFlight s \<Longrightarrow> ks_timers s' = ks_timers s
   \<Longrightarrow> ks_nextTimer s' = ks_nextTimer s \<Longrightarrow> records_given_out s' = records_given_out s"
  by (simp add: records_given_out_def queue_given_out_def)

lemma records_given_out_clearTimeout:
  "records_given_out s \<Longrightarrow> records_given_out (clearTimeout h s)"
  by (auto simp: records_given_out_def queue_given_out_def clearTimeout_def list_all_iff
      split: option.splits)

lemma records_given_out_setTimeout:
  assumes "records_given_out s" and "callback_given_out (Suc (ks_nextTimer s)) cb"
  shows "records_given_out (setTimeout cb delay now s)"
proof -
  have m: "given_out (ks_nextTimer s) task \<Longrightarrow> given_out (Suc (ks_nextTimer s)) task" for task
    by (auto simp: given_out_def split: option.splits)
  have c: "callback_given_out (ks_nextTimer s) x \<Longrightarrow> callback_given_out (Suc (ks_nextTimer s)) x"
    for x
    using m by (cases x) simp_all
  show ?thesis
    using assms m c
    by (auto simp: records_given_out_def queue_given_out_def setTimeout_def list_all_iff)
qed

lemma set_update_subset:
  "set (AList.update k v xs) \<subseteq> insert (k, v) (set xs)"
  by (induction xs) auto

lemma records_given_out_record:
  assumes "records_given_out s" and "given_out (ks_nextTimer s) task"
  shows "records_given_out (s\<lparr>renderQueue := AList.update kid task (renderQueue s)\<rparr>)"
  using assms set_update_subset [of kid task "renderQueue s"]
  by (auto simp: records_given_out_def queue_given_out_def list_all_iff)

lemma records_given_out_executeRender:
  assumes "records_given_out s" and "given_out (ks_nextTimer s) task"
  shows "records_given_out (snd (executeRender now k task s))"
  using assms
  by (auto simp: executeRender_def Let_def ks_emit_def records_given_out_def
      queue_given_out_def list_all_iff AList.delete_eq split: sum.splits)

lemma records_given_out_queueRender:
  assumes "records_given_out s"
  shows "records_given_out (snd (queueRender now k kid rd s))"
proof -
  define s1 where "s1 = (case map_of (renderQueue s) kid of None \<Rightarrow> s
                         | Some queued \<Rightarrow> clearTimeout (timeout queued) s)"
  define task where "task = \<lparr> keyId = kid, renderData = rd, queued_at = now, timeout = None \<rparr>"
  have s1: "records_given_out s1"
    using assms by (simp add: s1_def records_given_out_clearTimeout split: option.splits)
  have t: "given_out n task" for n
    by (simp add: given_out_def task_def)
  show ?thesis
  proof (cases "getThrottleDelay now kid s1 > 0")
    case True
    define task' where "task' = task\<lparr>timeout := Some (ks_nextTimer s1)\<rparr>"
    define s2 where "s2 = setTimeout (ExecuteRender task') (getThrottleDelay now kid s1) now s1"
    have g: "given_out (Suc (ks_nextTimer s1)) task'"
      by (simp add: given_out_def task'_def)
    have s2: "records_given_out s2"
      unfolding s2_def using s1 by (rule records_given_out_setTimeout) (simp add: g)
    have "given_out (ks_nextTimer s2) task'"
      using g by (simp add: s2_def setTimeout_def)
    then have "records_given_out (s2\<lparr>renderQueue := AList.update kid task' (renderQueue s2)\<rparr>)"
      by (rule records_given_out_record [OF s2])
    then show ?thesis
      using True
      by (simp add: queueRender_def s1_def [symmetric] task_def [symmetric] Let_def
          task'_def [symmetric] s2_def [symmetric])
  next
    case False
    obtain r s2 where e: "executeRender now k task s1 = (r, s2)"
      by (cases "executeRender now k task s1")
    have "records_given_out s2"
      using records_given_out_executeRender [OF s1 t, of now k] by (simp add: e)
    then show ?thesis
      using False
      by (simp add: queueRender_def s1_def [symmetric] task_def [symmetric] Let_def e
          split: option.splits)
  qed
qed

lemma records_given_out_handleKeyError:
  assumes "records_given_out s"
  shows "records_given_out (handleKeyError now kid message s)"
proof -
  have c: "records_given_out s' \<Longrightarrow> records_given_out (setTimeout (Retry kd) delay now s')"
    for s' kd delay
    by (rule records_given_out_setTimeout) simp_all
  have e: "records_given_out (s\<lparr>errorCounts := ec\<rparr>)" for ec
    using assms by (simp add: records_given_out_def queue_given_out_def)
  have a: "records_given_out (s\<lparr>errorCounts := ec, activeKeys := ak\<rparr>)" for ec ak
    using assms by (simp add: records_given_out_def queue_given_out_def)
  show ?thesis
    using c [OF e] e a
    by (simp add: handleKeyError_def Let_def split: option.splits)
qed

lemma records_given_out_resume:
  "records_given_out s \<Longrightarrow> given_out (ks_nextTimer s) task
   \<Longrightarrow> records_given_out (queueRender_resume task s)"
  "records_given_out s \<Longrightarrow> records_given_out (updateKey_resume now kid kd s)"
  "records_given_out s \<Longrightarrow> records_given_out (executeRender_resume now d task s)"
proof -
  show "records_given_out s \<Longrightarrow> given_out (ks_nextTimer s) task
    \<Longrightarrow> records_given_out (queueRender_resume task s)"
    unfolding queueRender_resume_def by (rule records_given_out_record)
  show "records_given_out s \<Longrightarrow> records_given_out (updateKey_resume now kid kd s)"
    by (simp add: records_given_out_def queue_given_out_def updateKey_resume_def)
  show "records_given_out s \<Longrightarrow> records_given_out (executeRender_resume now d task s)"
    by (auto simp: records_given_out_def queue_given_out_def executeRender_resume_def Let_def
        ks_emit_def list_all_iff AList.delete_eq split: draw_outcome.splits)
qed

lemma records_given_out_updateKey:
  assumes "records_given_out s"
  shows "records_given_out (snd (updateKey now sn kuid dat ro s))"
proof -
  have q: "records_given_out (snd (queueRender now k kid rd
             (s\<lparr>stateManager := updateKeyState now kuid dat (stateManager s)\<rparr>)))" for k kid rd
    using assms
    by (intro records_given_out_queueRender) (simp add: records_given_out_def queue_given_out_def)
  have "records_given_out s2"
    if "queueRender now k kid rd
          (s\<lparr>stateManager := updateKeyState now kuid dat (stateManager s)\<rparr>) = (p, s2)"
    for k kid rd p s2
    using q [of k kid rd] that by simp
  then show ?thesis
    using assms
    by (auto simp: updateKey_def Let_def records_given_out_handleKeyError
        records_given_out_resume split: option.splits prod.splits progress.splits)
qed

lemma records_given_out_draw_settles:
  assumes "records_given_out s"
  shows "records_given_out (snd (draw_settles i d now s))"
proof (cases "i < length (inFlight s)")
  case False
  then show ?thesis
    using assms by (simp add: draw_settles_def)
next
  case True
  define task where "task = fl_task (inFlight s ! i)"
  define s0 where "s0 = s\<lparr>inFlight := take i (inFlight s) @ drop (Suc i) (inFlight s)\<rparr>"
  have "inFlight s ! i \<in> set (inFlight s)"
    using True by simp
  then have g: "given_out (ks_nextTimer s) task"
    using assms by (auto simp: records_given_out_def list_all_iff task_def)
  have "set (take i (inFlight s) @ drop (Suc i) (inFlight s)) \<subseteq> set (inFlight s)"
    using set_take_subset [of i "inFlight s"] set_drop_subset [of "Suc i" "inFlight s"]
    by auto
  then have s0: "records_given_out s0"
    using assms by (auto simp: records_given_out_def queue_given_out_def list_all_iff s0_def)
  have s1: "records_given_out (executeRender_resume now d' task s0)" for d'
    using s0 by (rule records_given_out_resume)
  have n: "ks_nextTimer (executeRender_resume now d' task s0) = ks_nextTimer s" for d'
    by (simp add: s0_def executeRender_resume_def Let_def ks_emit_def
        split: draw_outcome.splits)
  have g1: "given_out (ks_nextTimer (executeRender_resume now d' task s0)) task" for d'
    using g by (simp add: n)
  have q: "records_given_out (queueRender_resume task (executeRender_resume now d' task s0))"
    for d'
    using s1 g1 by (rule records_given_out_resume)
  show ?thesis
    using True s1 q
    by (auto simp: draw_settles_def Let_def task_def [symmetric] s0_def [symmetric]
        records_given_out_resume records_given_out_handleKeyError
        split: draw_outcome.splits continuation.splits)
qed

lemma records_given_out_timer_fires:
  assumes "records_given_out s"
  shows "records_given_out (timer_fires h now s)"
proof (cases "find (\<lambda>t. handle t = h) (ks_timers s)")
  case None
  then show ?thesis
    using assms by (simp add: timer_fires_def)
next
  case (Some t)
  then have "t \<in> set (ks_timers s)"
    by (auto simp: find_Some_iff)
  then have g: "callback_given_out (ks_nextTimer s) (callback t)"
    using assms by (auto simp: records_given_out_def list_all_iff)
  have c: "records_given_out (clearTimeout (Some h) s)"
    using assms by (rule records_given_out_clearTimeout)
  have n: "ks_nextTimer (clearTimeout (Some h) s) = ks_nextTimer s"
    by (simp add: clearTimeout_def)
  show ?thesis
  proof (cases "callback t")
    case (ExecuteRender task)
    then have "given_out (ks_nextTimer (clearTimeout (Some h) s)) task"
      using g by (simp add: n)
    then have "records_given_out (snd (executeRender now Deferred task (clearTimeout (Some h) s)))"
      by (rule records_given_out_executeRender [OF c])
    then show ?thesis
      using assms by (simp add: timer_fires_def Some ExecuteRender Let_def)
  next
    case (Retry kd)
    show ?thesis
      using assms c records_given_out_updateKey [OF c]
      by (simp add: timer_fires_def Some Retry retry_def Let_def)
  qed
qed

lemma records_given_out_removeKey:
  "records_given_out s \<Longrightarrow> records_given_out (removeKey kid s)"
  by (auto simp: removeKey_def Let_def records_given_out_def queue_given_out_def
      clearTimeout_def list_all_iff AList.delete_eq split: option.splits)

lemma records_given_out_fold_removeKey:
  "records_given_out s \<Longrightarrow> records_given_out (fold removeKey ks s)"
  by (induction ks arbitrary: s) (simp_all add: records_given_out_removeKey)

lemma records_given_out_performCleanup:
  "records_given_out s \<Longrightarrow> records_given_out (performCleanup now s)"
  using records_given_out_fold_removeKey [of s]
  by (simp add: performCleanup_def Let_def records_given_out_def queue_given_out_def)

lemma records_given_out_handleDeviceDisconnection:
  "records_given_out s \<Longrightarrow> records_given_out (handleDeviceDisconnection sn s)"
  using records_given_out_fold_removeKey [of s]
  by (simp add: handleDeviceDisconnection_def Let_def records_given_out_def
      queue_given_out_def ks_emit_def)

lemma records_given_out_disconnect_missing:
  "records_given_out s \<Longrightarrow> records_given_out (disconnect_missing cur xs s)"
  by (induction xs arbitrary: s)
    (simp_all add: disconnect_missing_def records_given_out_handleDeviceDisconnection)

lemma records_given_out_noteDevice:
  "records_given_out (snd acc) \<Longrightarrow> records_given_out (snd (noteDevice c d acc))"
  by (simp add: noteDevice_def records_given_out_def queue_given_out_def ks_emit_def
      split: device.splits option.splits)

lemma records_given_out_fold_noteDevice:
  "records_given_out (snd acc) \<Longrightarrow> records_given_out (snd (fold (noteDevice c) ds acc))"
  by (induction ds arbitrary: acc) (simp_all add: records_given_out_noteDevice)

lemma records_given_out_handleDeviceStatus:
  assumes "records_given_out s"
  shows "records_given_out (handleDeviceStatus devices s)"
proof -
  define r where "r = (case devices of NotAnArray \<Rightarrow> ([], s)
                       | Devices ds \<Rightarrow> fold (noteDevice (connectedDevices s)) ds ([], s))"
  have "records_given_out (snd r)"
    using assms records_given_out_fold_noteDevice [of "([], s)"]
    by (simp add: r_def split: device_status.splits)
  then have "records_given_out (disconnect_missing (fst r) (connectedDevices s) (snd r))"
    by (rule records_given_out_disconnect_missing)
  then show ?thesis
    by (simp add: handleDeviceStatus_def r_def [symmetric] Let_def records_given_out_def
        queue_given_out_def)
qed

lemma records_given_out_registerKeys:
  assumes "records_given_out s"
  shows "records_given_out (registerKeys sn ks s)"
proof -
  have "records_given_out s' \<Longrightarrow> records_given_out (fold (registerKey sn) ks s')" for s'
    by (induction ks arbitrary: s')
      (simp_all add: registerKey_def records_given_out_def queue_given_out_def)
  then show ?thesis
    using assms
    by (simp add: registerKeys_def Let_def records_given_out_def queue_given_out_def ks_emit_def)
qed

lemma records_given_out_ks_new:
  "records_given_out (ks_new now)"
  "records_given_out s \<Longrightarrow> records_given_out (setPlugin s)"
  by (simp_all add: records_given_out_def queue_given_out_def ks_new_def setPlugin_def)

section \<open>KeyService: retries\<close>

lemma last_failure_snoc:
  "ks_emitted s = es @ [keyError sn kuid message t] \<Longrightarrow> last_failure s = t"
  by (simp add: last_failure_def)

lemma not_throttled_delay:
  "\<not> isThrottled now kid s \<Longrightarrow> getThrottleDelay now kid s = 0"
  by (auto simp: isThrottled_def getThrottleDelay_def Let_def split: option.splits)

lemma isThrottled_cong:
  "lastRenderTime s' = lastRenderTime s \<Longrightarrow> ks_opts s' = ks_opts s
   \<Longrightarrow> isThrottled now kid s' = isThrottled now kid s"
  by (simp add: isThrottled_def split: option.splits)

text \<open>The errors that \<^verbatim>\<open>executeRender\<close> throws before any draw call are transient.\<close>

lemma early_errors_transient:
  "\<not> terminal ''renderData.image.startsWith is not a function''"
  "\<not> terminal ''Plugin instance not available for rendering''"
  by (simp_all add: terminal_def)

lemma render_call_Inl:
  "render_call serial rd = Inl e \<Longrightarrow> e = ''renderData.image.startsWith is not a function''"
  by (auto simp: render_call_def split: option.splits json.splits if_splits)

lemma handleKeyError_retry:
  assumes "map_of (activeKeys s) kid = Some kd" and "\<not> terminal m"
    and "Suc (error_count kid s) \<le> maxRetries (ks_opts s)"
  shows "handleKeyError now kid m s =
     s\<lparr>errorCounts := AList.update kid (Suc (error_count kid s)) (errorCounts s),
       ks_timers := ks_timers s @
         [\<lparr> handle = ks_nextTimer s,
            due = now + retryDelay (ks_opts s) * int (Suc (error_count kid s)),
            callback = Retry kd \<rparr>],
       ks_nextTimer := Suc (ks_nextTimer s)\<rparr>"
  using assms
  by (simp add: handleKeyError_def error_count_def setTimeout_def Let_def split: option.splits)

lemma handleKeyError_failed:
  assumes "map_of (activeKeys s) kid = Some kd" and "\<not> terminal m"
    and "\<not> Suc (error_count kid s) \<le> maxRetries (ks_opts s)"
  shows "handleKeyError now kid m s =
     s\<lparr>errorCounts := AList.update kid (Suc (error_count kid s)) (errorCounts s),
       activeKeys := AList.map_entry kid (\<lambda>k. k\<lparr>state := failed\<rparr>) (activeKeys s)\<rparr>"
  using assms
  by (simp add: handleKeyError_def error_count_def Let_def split: option.splits)

lemma handleKeyError_frame:
  "connectedDevices (handleKeyError now kid m s) = connectedDevices s"
  "ks_opts (handleKeyError now kid m s) = ks_opts s"
  "inFlight (handleKeyError now kid m s) = inFlight s"
  "stateManager (handleKeyError now kid m s) = stateManager s"
  "renderQueue (handleKeyError now kid m s) = renderQueue s"
  "lastRenderTime (handleKeyError now kid m s) = lastRenderTime s"
  "ks_emitted (handleKeyError now kid m s) = ks_emitted s"
  "error_count kid (handleKeyError now kid m s) = Suc (error_count kid s)"
  by (simp_all add: handleKeyError_def Let_def setTimeout_def error_count_def AList.update_conv'
      split: option.splits)

lemma cached_after_update:
  "truthy (getKeyState kuid (updateKeyState now kuid dat sm))"
  by (simp add: getKeyState_def updateKeyState_def markDirty_def Let_def js_or_def
      AList.update_conv')

text \<open>
  In any state: when the draw call of a render that \<^verbatim>\<open>updateKey\<close> waits for is
  rejected with a transient error and the key is registered, \<^verbatim>\<open>updateKey\<close> returns
  false and \<^verbatim>\<open>handleKeyError\<close> has handled the failure.
\<close>

lemma rejected_update_is_counted:
  assumes "i < length (inFlight s)"
    and "inFlight s ! i = \<lparr> fl_task = task, fl_then = Updating kd0 \<rparr>"
    and "map_of (activeKeys s) (keyId task) = Some kd" and "\<not> terminal message"
  shows "fst (draw_settles i (DrawFailed message) now s) = Returned False
       \<and> failure_handled (keyId task) kd now s (snd (draw_settles i (DrawFailed message) now s))"
proof -
  define kid where "kid = keyId task"
  define S2 where "S2 = executeRender_resume now (DrawFailed message) task
      (s\<lparr>inFlight := take i (inFlight s) @ drop (Suc i) (inFlight s)\<rparr>)"
  have settled: "draw_settles i (DrawFailed message) now s =
      (Returned False, handleKeyError now kid message S2)"
    using assms(1,2) by (simp add: draw_settles_def Let_def S2_def kid_def)
  have S2: "activeKeys S2 = activeKeys s" "errorCounts S2 = errorCounts s"
    "ks_timers S2 = ks_timers s" "ks_nextTimer S2 = ks_nextTimer s" "ks_opts S2 = ks_opts s"
    by (simp_all add: S2_def executeRender_resume_def Let_def ks_emit_def)
  have reg: "map_of (activeKeys S2) kid = Some kd"
    using assms(3) by (simp add: S2 kid_def)
  have ec: "error_count kid S2 = error_count kid s"
    by (simp add: error_count_def S2)
  have counted: "error_count kid (handleKeyError now kid message S2) = Suc (error_count kid s)"
    by (simp add: handleKeyError_frame ec)
  show ?thesis
  proof (cases "Suc (error_count kid s) \<le> maxRetries (ks_opts s)")
    case True
    then have le: "Suc (error_count kid S2) \<le> maxRetries (ks_opts S2)"
      by (simp add: ec S2)
    have "ks_timers (handleKeyError now kid message S2) =
            ks_timers s @
              [\<lparr> handle = ks_nextTimer s,
                 due = now + retryDelay (ks_opts s) * int (Suc (error_count kid s)),
                 callback = Retry kd \<rparr>]
        \<and> map_of (activeKeys (handleKeyError now kid message S2)) kid = Some kd"
      using reg by (simp add: handleKeyError_retry [OF reg assms(4) le] S2 ec)
    then show ?thesis
      using True counted by (simp add: settled kid_def [symmetric] failure_handled_def)
  next
    case False
    then have gt: "\<not> Suc (error_count kid S2) \<le> maxRetries (ks_opts S2)"
      by (simp add: ec S2)
    have "ks_timers (handleKeyError now kid message S2) = ks_timers s
        \<and> map_of (activeKeys (handleKeyError now kid message S2)) kid =
            Some (kd\<lparr>state := failed\<rparr>)"
      using reg
      by (simp add: handleKeyError_failed [OF reg assms(4) gt] S2 AList.map_of_map_entry)
    then show ?thesis
      using False counted by (simp add: settled kid_def [symmetric] failure_handled_def)
  qed
qed

subsection \<open>The periodic cleanup\<close>

text \<open>
  The cleanup removes the keys that are dead or failed, with the timers that the render
  queue has on record for them. A registered key that is neither, it leaves as it is:
  its entry, its error count, and every timer whose handle the render queue does not
  name.
\<close>

lemma map_of_filter_key:
  "(\<And>v. P (k, v)) \<Longrightarrow> map_of (filter P xs) k = map_of xs k"
  by (induction xs) auto

lemma map_of_filter_distinct:
  "distinct (map fst xs) \<Longrightarrow>
   map_of (filter P xs) k = None \<or> map_of (filter P xs) k = map_of xs k"
proof (induction xs)
  case Nil
  then show ?case by simp
next
  case (Cons p xs)
  obtain k' v where p: "p = (k', v)" by (cases p)
  show ?case
  proof (cases "k = k'")
    case True
    with Cons.prems p have "k \<notin> fst ` set xs" by auto
    then have "map_of (filter P xs) k = None"
      by (auto simp: map_of_eq_None_iff)
    with True p show ?thesis by simp
  next
    case False
    with Cons p show ?thesis by simp
  qed
qed

lemma queue_given_out_delete:
  "queue_given_out n s \<Longrightarrow> renderQueue s' = AList.delete k (renderQueue s)
   \<Longrightarrow> queue_given_out n s'"
  by (auto simp: queue_given_out_def list_all_iff AList.delete_eq)

lemma queued_timeout_given_out:
  assumes "queue_given_out n s" and "queued_timeout k s = Some h"
  shows "h < n"
proof -
  obtain task where t: "map_of (renderQueue s) k = Some task" "timeout task = Some h"
    using assms(2) by (auto simp: queued_timeout_def split: option.splits)
  then have "(k, task) \<in> set (renderQueue s)"
    by (intro map_of_SomeD)
  then have "given_out n task"
    using assms(1) by (auto simp: queue_given_out_def list_all_iff)
  then show ?thesis
    using t(2) by (simp add: given_out_def)
qed

lemma added_unrecorded:
  assumes "queue_given_out n s"
  shows "filter (\<lambda>t. n \<le> handle t) (unrecorded k s) = filter (\<lambda>t. n \<le> handle t) (ks_timers s)"
proof -
  have "n \<le> handle t \<Longrightarrow> Some (handle t) \<noteq> queued_timeout k s" for t
    using queued_timeout_given_out [OF assms, of k "handle t"] by auto
  then show ?thesis
    unfolding unrecorded_def filter_filter by (intro filter_cong) auto
qed

lemma removeKey_queue:
  "renderQueue (removeKey k s) = AList.delete k (renderQueue s)"
  by (cases "map_of (renderQueue s) k")
    (simp_all add: removeKey_def clearTimeout_def Let_def map_of_eq_None_iff
      split: option.splits)

lemma removeKey_maps:
  "errorCounts (removeKey k s) = AList.delete k (errorCounts s)"
  "lastRenderTime (removeKey k s) = AList.delete k (lastRenderTime s)"
  "ks_timers (removeKey k s) = unrecorded k s"
  "ks_opts (removeKey k s) = ks_opts s"
  "inFlight (removeKey k s) = inFlight s"
  "stateManager (removeKey k s) = stateManager s"
  "ks_nextTimer (removeKey k s) = ks_nextTimer s"
  by (auto simp: removeKey_def clearTimeout_def Let_def unrecorded_def queued_timeout_def
      split: option.splits)

lemma fold_removeKey_keeps:
  assumes "kid \<notin> set ks" and "queue_given_out n s"
  shows "map_of (activeKeys (fold removeKey ks s)) kid = map_of (activeKeys s) kid
       \<and> map_of (errorCounts (fold removeKey ks s)) kid = map_of (errorCounts s) kid
       \<and> map_of (lastRenderTime (fold removeKey ks s)) kid = map_of (lastRenderTime s) kid
       \<and> queue_given_out n (fold removeKey ks s)
       \<and> filter (\<lambda>t. n \<le> handle t) (ks_timers (fold removeKey ks s)) =
           filter (\<lambda>t. n \<le> handle t) (ks_timers s)
       \<and> (keys_distinct s \<longrightarrow> keys_distinct (fold removeKey ks s))
       \<and> ks_opts (fold removeKey ks s) = ks_opts s
       \<and> inFlight (fold removeKey ks s) = inFlight s
       \<and> stateManager (fold removeKey ks s) = stateManager s
       \<and> ks_nextTimer (fold removeKey ks s) = ks_nextTimer s"
  using assms
proof (induction ks arbitrary: s)
  case Nil
  then show ?case by simp
next
  case (Cons k ks)
  have ne: "kid \<noteq> k" and rest: "kid \<notin> set ks"
    using Cons.prems(1) by auto
  have q: "queue_given_out n (removeKey k s)"
    using Cons.prems(2) by (rule queue_given_out_delete) (simp add: removeKey_queue)
  have d: "keys_distinct s \<longrightarrow> keys_distinct (removeKey k s)"
    by (simp add: keys_distinct_def removeKey_fields removeKey_maps AList.distinct_delete)
  have step: "map_of (activeKeys (removeKey k s)) kid = map_of (activeKeys s) kid"
    "map_of (errorCounts (removeKey k s)) kid = map_of (errorCounts s) kid"
    "map_of (lastRenderTime (removeKey k s)) kid = map_of (lastRenderTime s) kid"
    "filter (\<lambda>t. n \<le> handle t) (ks_timers (removeKey k s)) =
       filter (\<lambda>t. n \<le> handle t) (ks_timers s)"
    using ne added_unrecorded [OF Cons.prems(2), of k]
    by (simp_all add: removeKey_fields removeKey_maps)
  show ?case
    using Cons.IH [OF rest q] step d by (simp add: removeKey_maps removeKey_queue)
qed

lemma healthy_key_is_kept:
  assumes "map_of (activeKeys s) kid = Some kd" and "state kd \<noteq> dead" and "state kd \<noteq> failed"
    and "keys_distinct s"
  shows "kid \<notin> set (map fst (filter (\<lambda>(k, d). state d = dead \<or> state d = failed)
                               (activeKeys s)))"
proof
  assume "kid \<in> set (map fst (filter (\<lambda>(k, d). state d = dead \<or> state d = failed)
                                 (activeKeys s)))"
  then obtain d where d: "(kid, d) \<in> set (activeKeys s)" "state d = dead \<or> state d = failed"
    by auto
  have "map_of (activeKeys s) kid = Some d"
    using assms(4) d(1) by (intro map_of_is_SomeI) (simp_all add: keys_distinct_def)
  then show False
    using assms(1-3) d(2) by simp
qed

lemma performCleanup_keeps:
  assumes "map_of (activeKeys s) kid = Some kd" and "state kd \<noteq> dead" and "state kd \<noteq> failed"
    and "keys_distinct s" and "queue_given_out n s"
  shows "map_of (activeKeys (performCleanup now s)) kid = Some kd
       \<and> keys_distinct (performCleanup now s)
       \<and> queue_given_out n (performCleanup now s)
       \<and> error_count kid (performCleanup now s) = error_count kid s
       \<and> (map_of (lastRenderTime (performCleanup now s)) kid = None
          \<or> map_of (lastRenderTime (performCleanup now s)) kid = map_of (lastRenderTime s) kid)
       \<and> filter (\<lambda>t. n \<le> handle t) (ks_timers (performCleanup now s)) =
           filter (\<lambda>t. n \<le> handle t) (ks_timers s)
       \<and> connectedDevices (performCleanup now s) = connectedDevices s
       \<and> stateManager (performCleanup now s) = stateManager s
       \<and> ks_opts (performCleanup now s) = ks_opts s
       \<and> inFlight (performCleanup now s) = inFlight s
       \<and> ks_emitted (performCleanup now s) = ks_emitted s
       \<and> ks_nextTimer (performCleanup now s) = ks_nextTimer s"
proof -
  define ks where "ks = map fst (filter (\<lambda>(k, d). state d = dead \<or> state d = failed)
                                   (activeKeys s))"
  define s1 where "s1 = fold removeKey ks s"
  define P where "P = (\<lambda>(k :: string, ts :: int). \<not> (\<not> has (activeKeys s1) k \<or> now - ts > 300000))"
  define Q where "Q = (\<lambda>(k :: string, c :: nat). \<not> \<not> has (activeKeys s1) k)"
  have c: "performCleanup now s =
      s1\<lparr>lastRenderTime := filter P (lastRenderTime s1),
         errorCounts := filter Q (errorCounts s1)\<rparr>"
    by (simp add: performCleanup_def Let_def ks_def [symmetric] s1_def [symmetric] P_def Q_def)
  have kept: "kid \<notin> set ks"
    unfolding ks_def using assms(1-4) by (rule healthy_key_is_kept)
  note k = fold_removeKey_keeps [OF kept assms(5), folded s1_def]
  note f = fold_removeKey_fields [of ks s, folded s1_def]
  have reg: "map_of (activeKeys s1) kid = Some kd"
    using k assms(1) by simp
  have d1: "keys_distinct s1"
    using k assms(4) by simp
  have Q: "Q (kid, v)" for v
    using reg by (simp add: Q_def has_def)
  have ec: "map_of (filter Q (errorCounts s1)) kid = map_of (errorCounts s) kid"
    using k by (simp add: map_of_filter_key [of Q, OF Q])
  have lr: "map_of (filter P (lastRenderTime s1)) kid = None
      \<or> map_of (filter P (lastRenderTime s1)) kid = map_of (lastRenderTime s) kid"
    using map_of_filter_distinct [of "lastRenderTime s1" P kid] d1 k
    by (simp add: keys_distinct_def)
  have d: "keys_distinct (performCleanup now s)"
    using d1 by (simp add: c keys_distinct_def distinct_map_filter)
  have q: "queue_given_out n (performCleanup now s)"
    using k by (simp add: c queue_given_out_def)
  show ?thesis
    using reg d q ec lr k f by (simp add: c error_count_def)
qed

lemma sweeps_keep:
  assumes "map_of (activeKeys s) kid = Some kd" and "state kd \<noteq> dead" and "state kd \<noteq> failed"
    and "keys_distinct s" and "queue_given_out n s" and "handles_fresh s"
  shows "map_of (activeKeys (sweeps ws s)) kid = Some kd
       \<and> keys_distinct (sweeps ws s)
       \<and> queue_given_out n (sweeps ws s)
       \<and> handles_fresh (sweeps ws s)
       \<and> error_count kid (sweeps ws s) = error_count kid s
       \<and> (map_of (lastRenderTime (sweeps ws s)) kid = None
          \<or> map_of (lastRenderTime (sweeps ws s)) kid = map_of (lastRenderTime s) kid)
       \<and> filter (\<lambda>t. n \<le> handle t) (ks_timers (sweeps ws s)) =
           filter (\<lambda>t. n \<le> handle t) (ks_timers s)
       \<and> connectedDevices (sweeps ws s) = connectedDevices s
       \<and> stateManager (sweeps ws s) = stateManager s
       \<and> ks_opts (sweeps ws s) = ks_opts s
       \<and> inFlight (sweeps ws s) = inFlight s
       \<and> ks_emitted (sweeps ws s) = ks_emitted s
       \<and> ks_nextTimer (sweeps ws s) = ks_nextTimer s"
  using assms(1,4,5,6)
proof (induction ws arbitrary: s)
  case Nil
  then show ?case by (simp add: sweeps_def)
next
  case (Cons w ws)
  note p = performCleanup_keeps [OF Cons.prems(1) assms(2,3) Cons.prems(2,3), of w]
  have hf: "handles_fresh (performCleanup w s)"
    using Cons.prems(4) by (rule handles_fresh_performCleanup)
  have reg: "map_of (activeKeys (performCleanup w s)) kid = Some kd"
    and d: "keys_distinct (performCleanup w s)"
    and q: "queue_given_out n (performCleanup w s)"
    using p by simp_all
  have s: "sweeps (w # ws) s = sweeps ws (performCleanup w s)"
    by (simp add: sweeps_def)
  note IH = Cons.IH [OF reg d q hf]
  have lr: "map_of (lastRenderTime (sweeps ws (performCleanup w s))) kid = None
      \<or> map_of (lastRenderTime (sweeps ws (performCleanup w s))) kid =
          map_of (lastRenderTime s) kid"
    using IH p by auto
  show ?case
    unfolding s using IH p lr by simp
qed

subsection \<open>One attempt\<close>

text \<open>
  An attempt through \<^verbatim>\<open>updateKey\<close> that fails, at once or when the draw call is
  answered, the cleanup running while the call waits: what is left for
  \<^verbatim>\<open>handleKeyError\<close> to do, and the state after it.
\<close>

lemma attempt_fails_shape:
  assumes "sn \<in> set (connectedDevices S0)"
    and "map_of (activeKeys S0) (keyId_of sn kuid) = Some kd"
    and "state kd \<noteq> dead" and "state kd \<noteq> failed"
    and "\<not> isThrottled t (keyId_of sn kuid) S0"
    and "0 \<le> lat" and "\<not> terminal message"
    and "keys_distinct S0" and "queue_given_out n S0" and "handles_fresh S0"
  shows "\<exists>T M S2.
      draw_rejected ws (t + lat) message S0 (snd (updateKey t sn kuid dat ro S0)) =
        handleKeyError T (keyId_of sn kuid) M S2
      \<and> t \<le> T \<and> \<not> terminal M
      \<and> map_of (activeKeys S2) (keyId_of sn kuid) = Some kd
      \<and> error_count (keyId_of sn kuid) S2 = error_count (keyId_of sn kuid) S0
      \<and> filter (\<lambda>x. n \<le> handle x) (ks_timers S2) = filter (\<lambda>x. n \<le> handle x) (ks_timers S0)
      \<and> handles_fresh S2 \<and> keys_distinct S2 \<and> queue_given_out n S2
      \<and> ks_nextTimer S2 = ks_nextTimer S0
      \<and> ks_opts S2 = ks_opts S0
      \<and> connectedDevices S2 = connectedDevices S0
      \<and> stateManager S2 = updateKeyState t kuid dat (stateManager S0)
      \<and> (map_of (lastRenderTime S2) (keyId_of sn kuid) = None
         \<or> map_of (lastRenderTime S2) (keyId_of sn kuid) = Some t)
      \<and> (\<exists>a b. ks_emitted S2 = ks_emitted S0 @ [keyError a b M T])
      \<and> inFlight S2 = inFlight S0"
proof -
  define kid where "kid = keyId_of sn kuid"
  define S1 where "S1 = S0\<lparr>stateManager := updateKeyState t kuid dat (stateManager S0)\<rparr>"
  define Sc where "Sc = clearTimeout (queued_timeout kid S1) S1"
  define task where "task = \<lparr> keyId = kid, renderData = prepareRenderData kd dat ro,
                               queued_at = t, timeout = None \<rparr>"
  have sc: "(case map_of (renderQueue S1) kid of None \<Rightarrow> S1
             | Some queued \<Rightarrow> clearTimeout (timeout queued) S1) = Sc"
    by (simp add: Sc_def queued_timeout_def clearTimeout_def split: option.splits)
  have Sc: "activeKeys Sc = activeKeys S0" "errorCounts Sc = errorCounts S0"
    "ks_timers Sc = unrecorded kid S0" "ks_nextTimer Sc = ks_nextTimer S0"
    "ks_opts Sc = ks_opts S0" "connectedDevices Sc = connectedDevices S0"
    "stateManager Sc = updateKeyState t kuid dat (stateManager S0)"
    "lastRenderTime Sc = lastRenderTime S0" "ks_emitted Sc = ks_emitted S0"
    "renderQueue Sc = renderQueue S0" "inFlight Sc = inFlight S0" "plugin Sc = plugin S0"
    "draws Sc = draws S0"
    by (auto simp: Sc_def S1_def clearTimeout_def unrecorded_def queued_timeout_def
        split: option.splits intro: filter_cong)
  have hf1: "handles_fresh S1"
    using assms(10) by (simp add: S1_def handles_fresh_def)
  have hfc: "handles_fresh Sc"
    unfolding Sc_def using hf1 by (rule handles_fresh_clearTimeout)
  have added: "filter (\<lambda>x. n \<le> handle x) (ks_timers Sc) =
               filter (\<lambda>x. n \<le> handle x) (ks_timers S0)"
    by (simp add: Sc added_unrecorded [OF assms(9)])
  have dl: "distinct (map fst (AList.update kid t (lastRenderTime S0)))"
    using assms(8) by (simp add: keys_distinct_def AList.distinct_update)
  have da: "distinct (map fst (activeKeys S0))"
    using assms(8) by (simp add: keys_distinct_def)
  have reg: "map_of (activeKeys S0) kid = Some kd"
    using assms(2) by (simp add: kid_def)
  have delay: "getThrottleDelay t kid Sc = 0"
    using assms(5)
    by (intro not_throttled_delay) (simp add: isThrottled_cong [OF Sc(8,5)] kid_def)
  have q: "queueRender t (Updating kd) kid (prepareRenderData kd dat ro) S1 =
      (case executeRender t (Updating kd) task Sc of
         (Some message, s2) \<Rightarrow> (Rejected message, s2)
       | (None, s2) \<Rightarrow> (Waiting, s2))"
    by (simp add: queueRender_def sc Let_def delay task_def)
  have u: "updateKey t sn kuid dat ro S0 =
      (case executeRender t (Updating kd) task Sc of
         (Some message, s2) \<Rightarrow> (Some False, handleKeyError t kid message s2)
       | (None, s2) \<Rightarrow> (None, s2))"
    using assms(1,2,5)
    by (simp add: updateKey_def isDeviceConnected_def Let_def kid_def [symmetric]
        S1_def [symmetric] q split: prod.splits option.splits)
  define attempt where "attempt = (if \<not> plugin Sc
       then Inl ''Plugin instance not available for rendering''
       else render_call (fst (keyId_parts kid)) (prepareRenderData kd dat ro))"
  show ?thesis
  proof (cases attempt)
    case (Inl e)
    have e: "\<not> terminal e"
      using Inl early_errors_transient render_call_Inl
      by (auto simp: attempt_def split: if_splits)
    define S2 where "S2 = Sc\<lparr>lastRenderTime := AList.update kid t (lastRenderTime Sc),
        ks_emitted := ks_emitted Sc @
          [keyError (fst (keyId_parts kid)) (snd (keyId_parts kid)) e t],
        renderQueue := AList.delete kid (renderQueue Sc)\<rparr>"
    have ex: "executeRender t (Updating kd) task Sc = (Some e, S2)"
      using Inl
      by (simp add: executeRender_def Let_def task_def attempt_def [symmetric] S2_def ks_emit_def)
    have fl: "inFlight (handleKeyError t kid e S2) = inFlight S0"
      by (simp add: handleKeyError_frame S2_def Sc)
    have r: "updateKey t sn kuid dat ro S0 = (Some False, handleKeyError t kid e S2)"
      by (simp add: u ex)
    have final: "draw_rejected ws (t + lat) message S0 (snd (updateKey t sn kuid dat ro S0)) =
        handleKeyError t kid e S2"
      by (simp add: r draw_rejected_def fl)
    have hf: "handles_fresh S2"
      using hfc by (simp add: handles_fresh_def S2_def)
    have kd2: "keys_distinct S2"
      using dl da by (simp add: keys_distinct_def S2_def Sc)
    have q2: "queue_given_out n S2"
      using assms(9) by (rule queue_given_out_delete) (simp add: S2_def Sc)
    have ec: "error_count kid S2 = error_count kid S0"
      by (simp add: error_count_def S2_def Sc)
    have a2: "filter (\<lambda>x. n \<le> handle x) (ks_timers S2) =
              filter (\<lambda>x. n \<le> handle x) (ks_timers S0)"
      using added by (simp add: S2_def)
    have rest: "map_of (activeKeys S2) kid = Some kd" "ks_nextTimer S2 = ks_nextTimer S0"
      "ks_opts S2 = ks_opts S0" "connectedDevices S2 = connectedDevices S0"
      "stateManager S2 = updateKeyState t kuid dat (stateManager S0)"
      "map_of (lastRenderTime S2) kid = Some t"
      "ks_emitted S2 = ks_emitted S0 @
         [keyError (fst (keyId_parts kid)) (snd (keyId_parts kid)) e t]"
      "inFlight S2 = inFlight S0"
      using reg by (simp_all add: S2_def Sc AList.update_conv')
    show ?thesis
      unfolding kid_def [symmetric]
      using final e hf kd2 q2 ec a2 rest
      by (intro exI [of _ t] exI [of _ e] exI [of _ S2]) simp
  next
    case (Inr c)
    define Sw where "Sw = Sc\<lparr>lastRenderTime := AList.update kid t (lastRenderTime Sc),
        draws := draws Sc @ [c],
        inFlight := inFlight Sc @ [\<lparr> fl_task = task, fl_then = Updating kd \<rparr>]\<rparr>"
    have ex: "executeRender t (Updating kd) task Sc = (None, Sw)"
      using Inr
      by (simp add: executeRender_def Let_def task_def attempt_def [symmetric] Sw_def)
    have r: "updateKey t sn kuid dat ro S0 = (None, Sw)"
      by (simp add: u ex)
    have Sw: "map_of (activeKeys Sw) kid = Some kd" "keys_distinct Sw" "queue_given_out n Sw"
      "handles_fresh Sw"
      using reg dl da assms(9) hfc
      by (simp_all add: Sw_def Sc keys_distinct_def queue_given_out_def handles_fresh_def)
    define Sx where "Sx = sweeps ws Sw"
    note k0 = sweeps_keep [OF Sw(1) assms(3,4) Sw(2,3,4), of ws, folded Sx_def]
    have kx: "map_of (activeKeys Sx) kid = Some kd" "keys_distinct Sx" "queue_given_out n Sx"
      "handles_fresh Sx" "error_count kid Sx = error_count kid Sw"
      and lx: "map_of (lastRenderTime Sx) kid = None
        \<or> map_of (lastRenderTime Sx) kid = map_of (lastRenderTime Sw) kid"
      and k: "filter (\<lambda>x. n \<le> handle x) (ks_timers Sx) =
          filter (\<lambda>x. n \<le> handle x) (ks_timers Sw)"
        "connectedDevices Sx = connectedDevices Sw" "stateManager Sx = stateManager Sw"
        "ks_opts Sx = ks_opts Sw" "inFlight Sx = inFlight Sw" "ks_emitted Sx = ks_emitted Sw"
        "ks_nextTimer Sx = ks_nextTimer Sw"
      using k0 by blast+
    have flx: "inFlight Sx = inFlight S0 @ [\<lparr> fl_task = task, fl_then = Updating kd \<rparr>]"
      by (simp add: k) (simp add: Sw_def Sc)
    define S2 where "S2 = executeRender_resume (t + lat) (DrawFailed message) task
                            (Sx\<lparr>inFlight := inFlight S0\<rparr>)"
    have settled: "draw_settles (length (inFlight S0)) (DrawFailed message) (t + lat) Sx =
        (Returned False, handleKeyError (t + lat) kid message S2)"
      by (simp add: draw_settles_def flx Let_def S2_def) (simp add: task_def)
    have longer: "length (inFlight S0) < length (inFlight Sw)"
      by (simp add: Sw_def Sc)
    have final: "draw_rejected ws (t + lat) message S0 (snd (updateKey t sn kuid dat ro S0)) =
        handleKeyError (t + lat) kid message S2"
      using longer by (simp add: r draw_rejected_def Sx_def [symmetric] settled)
    have S2: "activeKeys S2 = activeKeys Sx" "errorCounts S2 = errorCounts Sx"
      "ks_timers S2 = ks_timers Sx" "ks_nextTimer S2 = ks_nextTimer Sx"
      "ks_opts S2 = ks_opts Sx" "connectedDevices S2 = connectedDevices Sx"
      "stateManager S2 = stateManager Sx" "lastRenderTime S2 = lastRenderTime Sx"
      "ks_emitted S2 = ks_emitted Sx @
         [keyError (fst (keyId_parts kid)) (snd (keyId_parts kid)) message (t + lat)]"
      "renderQueue S2 = AList.delete kid (renderQueue Sx)"
      "inFlight S2 = inFlight S0"
      by (simp_all add: S2_def executeRender_resume_def Let_def ks_emit_def task_def)
    have hf: "handles_fresh S2"
      using kx(4) by (simp add: handles_fresh_def S2)
    have kd2: "keys_distinct S2"
      using kx(2) by (simp add: keys_distinct_def S2)
    have q2: "queue_given_out n S2"
      using kx(3) by (rule queue_given_out_delete) (simp add: S2)
    have ec2: "error_count kid S2 = error_count kid Sx"
      by (simp add: error_count_def S2)
    have ecw: "error_count kid Sw = error_count kid S0"
      by (simp add: error_count_def Sw_def Sc)
    have ec: "error_count kid S2 = error_count kid S0"
      by (simp add: ec2 kx(5) ecw)
    have a2: "filter (\<lambda>x. n \<le> handle x) (ks_timers S2) =
              filter (\<lambda>x. n \<le> handle x) (ks_timers S0)"
      using added by (simp add: S2 k(1)) (simp add: Sw_def)
    have lw: "map_of (lastRenderTime Sw) kid = Some t"
      by (simp add: Sw_def AList.update_conv')
    have lr: "map_of (lastRenderTime S2) kid = None \<or> map_of (lastRenderTime S2) kid = Some t"
      using lx by (simp add: S2 lw)
    have rest: "map_of (activeKeys S2) kid = Some kd" "ks_nextTimer S2 = ks_nextTimer S0"
      "ks_opts S2 = ks_opts S0" "connectedDevices S2 = connectedDevices S0"
      "stateManager S2 = updateKeyState t kuid dat (stateManager S0)"
      "ks_emitted S2 = ks_emitted S0 @
         [keyError (fst (keyId_parts kid)) (snd (keyId_parts kid)) message (t + lat)]"
      using kx(1) by (simp_all add: S2 k) (simp_all add: Sw_def Sc)
    show ?thesis
      unfolding kid_def [symmetric]
      using final assms(6,7) hf kd2 q2 ec a2 lr rest S2(11)
      by (intro exI [of _ "t + lat"] exI [of _ message] exI [of _ S2]) simp
  qed
qed

lemma added_snoc:
  "n \<le> h \<Longrightarrow>
   filter (\<lambda>x. n \<le> handle x) (ts @ [\<lparr> handle = h, due = d, callback = cb \<rparr>]) =
     filter (\<lambda>x. n \<le> handle x) ts @ [\<lparr> handle = h, due = d, callback = cb \<rparr>]"
  by simp

lemma attempt_fails_effect:
  assumes "sn \<in> set (connectedDevices S0)"
    and "map_of (activeKeys S0) (keyId_of sn kuid) = Some kd"
    and "state kd \<noteq> dead" and "state kd \<noteq> failed"
    and "\<not> isThrottled t (keyId_of sn kuid) S0"
    and "0 \<le> lat" and "\<not> terminal message"
    and "keys_distinct S0" and "queue_given_out n S0" and "handles_fresh S0"
    and "n \<le> ks_nextTimer S0"
    and S_def: "S = draw_rejected ws (t + lat) message S0 (snd (updateKey t sn kuid dat ro S0))"
  shows "connectedDevices S = connectedDevices S0
       \<and> ks_opts S = ks_opts S0
       \<and> inFlight S = inFlight S0
       \<and> error_count (keyId_of sn kuid) S = Suc (error_count (keyId_of sn kuid) S0)
       \<and> truthy (getKeyState kuid (stateManager S))
       \<and> (case map_of (lastRenderTime S) (keyId_of sn kuid) of
             None \<Rightarrow> True
           | Some x \<Rightarrow> x \<le> last_failure S)
       \<and> t \<le> last_failure S
       \<and> handles_fresh S \<and> keys_distinct S \<and> queue_given_out n S
       \<and> (if Suc (error_count (keyId_of sn kuid) S0) \<le> maxRetries (ks_opts S0)
          then map_of (activeKeys S) (keyId_of sn kuid) = Some kd
             \<and> ks_nextTimer S = Suc (ks_nextTimer S0)
             \<and> filter (\<lambda>x. n \<le> handle x) (ks_timers S) =
                 filter (\<lambda>x. n \<le> handle x) (ks_timers S0) @
                   [\<lparr> handle = ks_nextTimer S0,
                      due = last_failure S + retryDelay (ks_opts S0)
                              * int (Suc (error_count (keyId_of sn kuid) S0)),
                      callback = Retry kd \<rparr>]
          else map_of (activeKeys S) (keyId_of sn kuid) = Some (kd\<lparr>state := failed\<rparr>)
             \<and> ks_nextTimer S = ks_nextTimer S0
             \<and> filter (\<lambda>x. n \<le> handle x) (ks_timers S) =
                 filter (\<lambda>x. n \<le> handle x) (ks_timers S0))"
proof -
  define kid where "kid = keyId_of sn kuid"
  obtain T M S2 a b where S: "S = handleKeyError T kid M S2"
    and T: "t \<le> T" and M: "\<not> terminal M"
    and reg: "map_of (activeKeys S2) kid = Some kd"
    and ec: "error_count kid S2 = error_count kid S0"
    and a2: "filter (\<lambda>x. n \<le> handle x) (ks_timers S2) =
             filter (\<lambda>x. n \<le> handle x) (ks_timers S0)"
    and inv: "handles_fresh S2" "keys_distinct S2" "queue_given_out n S2"
    and S2: "ks_nextTimer S2 = ks_nextTimer S0"
      "ks_opts S2 = ks_opts S0" "connectedDevices S2 = connectedDevices S0"
      "stateManager S2 = updateKeyState t kuid dat (stateManager S0)"
      "ks_emitted S2 = ks_emitted S0 @ [keyError a b M T]"
      "inFlight S2 = inFlight S0"
    and lr2: "map_of (lastRenderTime S2) kid = None \<or> map_of (lastRenderTime S2) kid = Some t"
    using attempt_fails_shape [OF assms(1-10), of ws dat ro] unfolding S_def kid_def by blast
  have lf: "last_failure S = T"
    by (rule last_failure_snoc [of S "ks_emitted S0" a b M T]) (simp add: S handleKeyError_frame S2)
  have hf: "handles_fresh S"
    unfolding S using inv(1) by (rule handles_fresh_handleKeyError)
  have q: "queue_given_out n S"
    using inv(3) by (simp add: queue_given_out_def S handleKeyError_frame)
  have lr: "case map_of (lastRenderTime S) kid of None \<Rightarrow> True | Some x \<Rightarrow> x \<le> T"
    using lr2 T by (auto simp: S handleKeyError_frame)
  have frame: "connectedDevices S = connectedDevices S0" "ks_opts S = ks_opts S0"
    "inFlight S = inFlight S0" "error_count kid S = Suc (error_count kid S0)"
    "truthy (getKeyState kuid (stateManager S))"
    by (simp_all add: S handleKeyError_frame S2 ec cached_after_update)
  have dl: "distinct (map fst (lastRenderTime S))"
    using inv(2) by (simp add: keys_distinct_def S handleKeyError_frame)
  show ?thesis
  proof (cases "Suc (error_count kid S0) \<le> maxRetries (ks_opts S0)")
    case True
    then have le: "Suc (error_count kid S2) \<le> maxRetries (ks_opts S2)"
      by (simp add: ec S2)
    have n: "n \<le> ks_nextTimer S2"
      using assms(11) by (simp add: S2)
    have e: "map_of (activeKeys S) kid = Some kd" "ks_nextTimer S = Suc (ks_nextTimer S0)"
      "ks_timers S = ks_timers S2 @
              [\<lparr> handle = ks_nextTimer S0,
                 due = T + retryDelay (ks_opts S0) * int (Suc (error_count kid S0)),
                 callback = Retry kd \<rparr>]"
      and ea: "activeKeys S = activeKeys S2"
      using reg
      by (simp_all add: S handleKeyError_retry [OF reg M le] S2 ec)
    have added: "filter (\<lambda>x. n \<le> handle x) (ks_timers S) =
        filter (\<lambda>x. n \<le> handle x) (ks_timers S0) @
          [\<lparr> handle = ks_nextTimer S0,
             due = T + retryDelay (ks_opts S0) * int (Suc (error_count kid S0)),
             callback = Retry kd \<rparr>]"
      using assms(11) a2 by (simp add: e(3))
    have kdS: "keys_distinct S"
      using inv(2) dl by (simp add: keys_distinct_def ea)
    show ?thesis
      unfolding kid_def [symmetric] lf
      using True frame T hf q lr e(1,2) added kdS by simp
  next
    case False
    then have gt: "\<not> Suc (error_count kid S2) \<le> maxRetries (ks_opts S2)"
      by (simp add: ec S2)
    have e: "map_of (activeKeys S) kid = Some (kd\<lparr>state := failed\<rparr>)"
      "ks_nextTimer S = ks_nextTimer S0" "ks_timers S = ks_timers S2"
      and ea: "activeKeys S = AList.map_entry kid (\<lambda>k. k\<lparr>state := failed\<rparr>) (activeKeys S2)"
      using reg
      by (simp_all add: S handleKeyError_failed [OF reg M gt] S2 AList.map_of_map_entry)
    have kdS: "keys_distinct S"
      using inv(2) dl by (simp add: keys_distinct_def ea AList.distinct_map_entry)
    show ?thesis
      unfolding kid_def [symmetric] lf
      using False frame T hf q lr e a2 kdS by simp
  qed
qed

subsection \<open>The chain\<close>

lemma find_added:
  fixes ts :: "ks_timer list"
  assumes "filter (\<lambda>x. n \<le> handle x) ts = [R]"
  shows "find (\<lambda>x. handle x = handle R) ts = Some R"
proof -
  have "R \<in> set (filter (\<lambda>x. n \<le> handle x) ts)"
    by (simp add: assms)
  then have R: "n \<le> handle R"
    by simp
  show ?thesis
    using assms
  proof (induction ts)
    case Nil
    then show ?case by simp
  next
    case (Cons x ts)
    show ?case
    proof (cases "n \<le> handle x")
      case True
      then have "x = R"
        using Cons.prems by simp
      then show ?thesis by simp
    next
      case False
      then have "handle x \<noteq> handle R"
        using R by simp
      moreover have "filter (\<lambda>x. n \<le> handle x) ts = [R]"
        using Cons.prems False by simp
      ultimately show ?thesis
        using Cons.IH by simp
    qed
  qed
qed

lemma added_cleared:
  fixes ts :: "ks_timer list"
  assumes "filter (\<lambda>x. n \<le> handle x) ts = [R]"
  shows "filter (\<lambda>x. n \<le> handle x) (filter (\<lambda>x. handle x \<noteq> handle R) ts) = []"
proof -
  have "filter P (filter Q ts) = filter Q (filter P ts)" for P Q :: "ks_timer \<Rightarrow> bool"
    by (induction ts) auto
  then have "filter (\<lambda>x. n \<le> handle x) (filter (\<lambda>x. handle x \<noteq> handle R) ts) =
             filter (\<lambda>x. handle x \<noteq> handle R) (filter (\<lambda>x. n \<le> handle x) ts)"
    by blast
  then show ?thesis
    by (simp add: assms)
qed

text \<open>The first failure, a retry that fails, and the chain of them.\<close>

lemma update_fails_effect:
  assumes "serialNumber kd \<in> set (connectedDevices s)"
    and "map_of (activeKeys s) (kd_id kd) = Some kd"
    and "state kd \<noteq> dead" and "state kd \<noteq> failed"
    and "\<not> isThrottled t0 (kd_id kd) s"
    and "error_count (kd_id kd) s = 0"
    and "handles_fresh s" and "keys_distinct s" and "queue_given_out (ks_nextTimer s) s"
    and "0 \<le> lat" and "\<not> terminal message"
  shows "retry_ready kd s (update_fails t0 ws lat message kd dat ro s)
       \<and> (if Suc 0 \<le> maxRetries (ks_opts s)
          then awaiting_retry kd (Suc 0) s (update_fails t0 ws lat message kd dat ro s)
          else gave_up kd s (update_fails t0 ws lat message kd dat ro s))"
proof -
  define S where "S = update_fails t0 ws lat message kd dat ro s"
  define N where "N = ks_nextTimer s"
  have S: "S = draw_rejected ws (t0 + lat) message s
                 (snd (updateKey t0 (serialNumber kd) (keyUid kd) dat ro s))"
    by (simp add: S_def update_fails_def)
  have N: "N \<le> ks_nextTimer s"
    by (simp add: N_def)
  note e = attempt_fails_effect [OF assms(1) assms(2) [unfolded kd_id_def] assms(3,4)
      assms(5) [unfolded kd_id_def] assms(10,11,8) assms(9) [folded N_def] assms(7) N S,
      folded kd_id_def]
  have none: "filter (\<lambda>x. N \<le> handle x) (ks_timers s) = []"
    using assms(7) by (auto simp: handles_fresh_def list_all_iff filter_empty_conv N_def)
  have ready: "retry_ready kd s S"
    using e assms(1) by (auto simp: retry_ready_def N_def split: if_splits)
  show ?thesis
    unfolding S_def [symmetric]
    using e ready assms(6) none
    by (auto simp: awaiting_retry_def gave_up_def added_timers_def N_def split: if_splits)
qed

lemma retry_fails_effect:
  assumes "retry_ready kd s S" and "awaiting_retry kd n s S" and "1 \<le> n"
    and "n \<le> maxRetries (ks_opts s)"
    and "state kd \<noteq> dead" and "state kd \<noteq> failed"
    and "transient_round r"
    and "throttleInterval (ks_opts s) \<le> retryDelay (ks_opts s)"
    and "0 < retryDelay (ks_opts s)"
  shows "retry_ready kd s (retry_fails r S)
       \<and> (if Suc n \<le> maxRetries (ks_opts s)
          then awaiting_retry kd (Suc n) s (retry_fails r S)
          else gave_up kd s (retry_fails r S))"
proof -
  obtain wa late wb lat message where r: "r = Round wa late wb lat message"
    by (cases r)
  have tr: "0 \<le> late" "0 \<le> lat" "\<not> terminal message"
    using assms(7) by (simp_all add: r)
  define kid where "kid = kd_id kd"
  define N where "N = ks_nextTimer s"
  define h where "h = ks_nextTimer S - 1"
  define D where "D = last_failure S + retryDelay (ks_opts s) * int n"
  define R where "R = \<lparr> handle = h, due = D, callback = Retry kd \<rparr>"
  define S1 where "S1 = sweeps wa S"
  define S0 where "S0 = clearTimeout (Some h) S1"
  define cachedState where "cachedState = getKeyState (keyUid kd) (stateManager S)"
  have added: "filter (\<lambda>x. N \<le> handle x) (ks_timers S) = [R]"
    and reg: "map_of (activeKeys S) kid = Some kd"
    and ec: "error_count kid S = n"
    and fl: "inFlight S = inFlight s"
    using assms(2)
    by (simp_all add: awaiting_retry_def added_timers_def kid_def h_def D_def R_def N_def)
  have conn: "serialNumber kd \<in> set (connectedDevices S)"
    and cached: "truthy cachedState"
    and lr: "case map_of (lastRenderTime S) kid of None \<Rightarrow> True
             | Some x \<Rightarrow> x \<le> last_failure S"
    and hf: "handles_fresh S" and kdS: "keys_distinct S" and q: "queue_given_out N S"
    and mono: "N \<le> ks_nextTimer S" and opts: "ks_opts S = ks_opts s"
    using assms(1) by (simp_all add: retry_ready_def kid_def cachedState_def N_def)
  note k0 = sweeps_keep [OF reg assms(5,6) kdS q hf, of wa, folded S1_def]
  have k1: "map_of (activeKeys S1) kid = Some kd" "keys_distinct S1" "queue_given_out N S1"
    "handles_fresh S1" "error_count kid S1 = error_count kid S"
    and l1: "map_of (lastRenderTime S1) kid = None
      \<or> map_of (lastRenderTime S1) kid = map_of (lastRenderTime S) kid"
    and k: "filter (\<lambda>x. N \<le> handle x) (ks_timers S1) = filter (\<lambda>x. N \<le> handle x) (ks_timers S)"
      "connectedDevices S1 = connectedDevices S" "stateManager S1 = stateManager S"
      "ks_opts S1 = ks_opts S" "inFlight S1 = inFlight S" "ks_emitted S1 = ks_emitted S"
      "ks_nextTimer S1 = ks_nextTimer S"
    using k0 by blast+
  have added1: "filter (\<lambda>x. N \<le> handle x) (ks_timers S1) = [R]"
    by (simp add: k(1) added)
  have hR: "handle R = h"
    by (simp add: R_def)
  have f: "find (\<lambda>x. handle x = h) (ks_timers S1) = Some R"
    using find_added [OF added1] by (simp add: hR)
  have S0: "connectedDevices S0 = connectedDevices S1"
    "activeKeys S0 = activeKeys S1" "lastRenderTime S0 = lastRenderTime S1"
    "ks_opts S0 = ks_opts S1" "errorCounts S0 = errorCounts S1" "inFlight S0 = inFlight S1"
    "stateManager S0 = stateManager S1" "renderQueue S0 = renderQueue S1"
    "ks_nextTimer S0 = ks_nextTimer S1"
    "ks_timers S0 = filter (\<lambda>x. handle x \<noteq> h) (ks_timers S1)"
    by (simp_all add: S0_def clearTimeout_def)
  have added0: "filter (\<lambda>x. N \<le> handle x) (ks_timers S0) = []"
    using added_cleared [OF added1] by (simp add: S0 hR)
  have hf0: "handles_fresh S0"
    unfolding S0_def using k1(4) by (rule handles_fresh_clearTimeout)
  have kd0: "keys_distinct S0"
    using k1(2) by (simp add: keys_distinct_def S0)
  have q0: "queue_given_out N S0"
    using k1(3) by (simp add: queue_given_out_def S0)
  have "retryDelay (ks_opts s) * 1 \<le> retryDelay (ks_opts s) * int n"
    using assms(3,9) by (intro mult_left_mono) simp_all
  then have wait: "throttleInterval (ks_opts s) \<le> retryDelay (ks_opts s) * int n"
    using assms(8) by simp
  have o0: "ks_opts S0 = ks_opts s"
    by (simp add: S0 k opts)
  have nt: "\<not> isThrottled (D + late) kid S0"
    using lr l1 wait tr(1)
    by (auto simp: isThrottled_def S0(3) o0 D_def split: option.splits)
  have lf1: "last_failure S1 = last_failure S"
    by (simp add: last_failure_def k)
  have cached1: "getKeyState (keyUid kd) (stateManager S1) = cachedState"
    by (simp add: cachedState_def k)
  have fired: "timer_fires h (D + late) S1 =
      snd (updateKey (D + late) (serialNumber kd) (keyUid kd) cachedState [] S0)"
    using cached tr(1)
    by (simp add: timer_fires_def f R_def retry_def Let_def S0_def [symmetric] S0(7) cached1)
  have hh: "ks_nextTimer S1 - Suc 0 = h"
    by (simp add: h_def k)
  have same: "draw_rejected wb now message S1 X = draw_rejected wb now message S0 X" for now X
    by (simp add: draw_rejected_def S0)
  define S' where "S' = retry_fails r S"
  have S': "S' = draw_rejected wb (D + late + lat) message S0
                   (snd (updateKey (D + late) (serialNumber kd) (keyUid kd) cachedState [] S0))"
    by (simp add: S'_def r S1_def [symmetric] hh f R_def fired same)
  have conn0: "serialNumber kd \<in> set (connectedDevices S0)"
    using conn by (simp add: S0 k)
  have reg0: "map_of (activeKeys S0) (keyId_of (serialNumber kd) (keyUid kd)) = Some kd"
    using k1(1) by (simp add: S0 kid_def kd_id_def)
  have nt0: "\<not> isThrottled (D + late) (keyId_of (serialNumber kd) (keyUid kd)) S0"
    using nt by (simp add: kid_def kd_id_def)
  have N0: "N \<le> ks_nextTimer S0"
    using mono by (simp add: S0 k)
  note e = attempt_fails_effect [OF conn0 reg0 assms(5,6) nt0 tr(2,3) kd0 q0 hf0 N0 S',
      folded kd_id_def kid_def]
  have ec0: "error_count kid S0 = n"
    using ec k1(5) by (simp add: error_count_def S0)
  have n0: "ks_nextTimer S0 = ks_nextTimer S"
    by (simp add: S0 k)
  have fl0: "inFlight S0 = inFlight s"
    by (simp add: S0 k fl)
  have c0: "connectedDevices S0 = connectedDevices S"
    by (simp add: S0 k)
  have ready: "retry_ready kd s S'"
    using e conn mono
    by (auto simp: retry_ready_def kid_def [symmetric] N_def [symmetric] o0 n0 c0
        split: if_splits)
  show ?thesis
    unfolding S'_def [symmetric]
    using e ready assms(4)
    by (auto simp: awaiting_retry_def gave_up_def added_timers_def kid_def [symmetric]
        N_def [symmetric] added0 ec0 o0 n0 fl0 split: if_splits)
qed

lemma failing_retries_snoc:
  "failing_retries (rs @ [r]) s = retry_fails r (failing_retries rs s)"
  by (simp add: failing_retries_def)

lemma retry_chain:
  assumes "serialNumber kd \<in> set (connectedDevices s)"
    and "map_of (activeKeys s) (kd_id kd) = Some kd"
    and "state kd \<noteq> dead" and "state kd \<noteq> failed"
    and "\<not> isThrottled t0 (kd_id kd) s"
    and "error_count (kd_id kd) s = 0"
    and "handles_fresh s" and "keys_distinct s" and "queue_given_out (ks_nextTimer s) s"
    and "0 \<le> lat" and "\<not> terminal message"
    and "list_all transient_round rs"
    and "throttleInterval (ks_opts s) \<le> retryDelay (ks_opts s)"
    and "0 < retryDelay (ks_opts s)"
    and "n \<le> length rs" and "n \<le> maxRetries (ks_opts s)"
  shows "retry_ready kd s (failing_retries (take n rs) (update_fails t0 ws lat message kd dat ro s))
       \<and> (if Suc n \<le> maxRetries (ks_opts s)
          then awaiting_retry kd (Suc n) s
                 (failing_retries (take n rs) (update_fails t0 ws lat message kd dat ro s))
          else gave_up kd s
                 (failing_retries (take n rs) (update_fails t0 ws lat message kd dat ro s)))"
  using assms(15,16)
proof (induction n)
  case 0
  have e: "failing_retries (take 0 rs) X = X" for X
    by (simp add: failing_retries_def)
  show ?case
    unfolding e by (rule update_fails_effect [OF assms(1-11)])
next
  case (Suc n)
  define S where "S = failing_retries (take n rs) (update_fails t0 ws lat message kd dat ro s)"
  have n: "n < length rs" "Suc n \<le> maxRetries (ks_opts s)"
    using Suc.prems by simp_all
  have IH: "retry_ready kd s S" "awaiting_retry kd (Suc n) s S"
    using Suc.IH n by (simp_all add: S_def)
  have tr: "transient_round (rs ! n)"
    using assms(12) n(1) by (simp add: list_all_length)
  have step: "failing_retries (take (Suc n) rs) (update_fails t0 ws lat message kd dat ro s) =
              retry_fails (rs ! n) S"
    by (simp add: take_Suc_conv_app_nth [OF n(1)] failing_retries_snoc S_def)
  have "1 \<le> Suc n" by simp
  from retry_fails_effect [OF IH(1,2) this n(2) assms(3,4) tr assms(13,14)]
  show ?case
    unfolding step .
qed

lemma performCleanup_removes:
  assumes "map_of (activeKeys s) kid = Some kd" and "state kd = dead \<or> state kd = failed"
  shows "map_of (activeKeys (performCleanup now s)) kid = None"
proof -
  let ?ks = "map fst (filter (\<lambda>(kid, kd). state kd = dead \<or> state kd = failed) (activeKeys s))"
  have "(kid, kd) \<in> set (activeKeys s)"
    using assms(1) by (rule map_of_SomeD)
  then have "kid \<in> set ?ks"
    using assms(2) by force
  then have "kid \<notin> fst ` set (activeKeys (fold removeKey ?ks s))"
    using fold_removeKey_fields [of ?ks s] by simp
  moreover have "activeKeys (performCleanup now s) = activeKeys (fold removeKey ?ks s)"
    by (simp add: performCleanup_def Let_def)
  ultimately show ?thesis
    by (simp add: map_of_eq_None_iff)
qed

text \<open>
  C5, as the code has it.

  In any state, when the draw call of a render that \<^verbatim>\<open>updateKey\<close> waits for is
  rejected with a transient error and the key is registered, \<^verbatim>\<open>updateKey\<close> returns
  false and the failure is handled: it is counted, and up to \<^verbatim>\<open>maxRetries\<close>
  failures one retry is scheduled, \<^verbatim>\<open>retryDelay\<close> times the count later, with the
  key left as it is; beyond that nothing is scheduled and the key is marked failed.

  Now a run. A key that is neither dead nor failed is registered on a connected device,
  no failure of it is counted, and a render of it is requested through \<^verbatim>\<open>updateKey\<close>
  while it is not throttled. That attempt fails with a transient error, and so does
  every retry: the draw call is rejected, or \<^verbatim>\<open>executeRender\<close> throws before it
  makes one. Each retry timer fires when it is due or later, each draw call is answered
  when it is made or later, and the periodic cleanup runs any number of times, at any
  times, before a retry timer fires and while a draw call waits; nothing else is
  handled in between, but other timers and draw calls may be pending all along.
  \<^verbatim>\<open>throttleInterval\<close> is at most \<^verbatim>\<open>retryDelay\<close>, which is positive, as in the
  default options. Then after the \<open>n\<close>-th failure in a row, for \<open>n\<close> up to
  \<^verbatim>\<open>maxRetries\<close>, the key is registered as before with \<open>n\<close> failures counted, and
  of the timers set since the start exactly one is pending: the retry, due
  \<^verbatim>\<open>retryDelay * n\<close> after the failure, a delay that grows strictly with \<open>n\<close>. So
  the render is retried \<^verbatim>\<open>maxRetries\<close> times. When the last of these retries has
  failed, the key is marked failed with \<^verbatim>\<open>maxRetries + 1\<close> failures counted and
  no retry pending, and the next cleanup removes the key.
  (\<open>handles_fresh\<close>, \<open>keys_distinct\<close> and \<open>records_given_out\<close> are invariants of
  the state.)
\<close>

theorem transient_failures_retry_then_fail:
  assumes "serialNumber kd \<in> set (connectedDevices s)"
    and "map_of (activeKeys s) (kd_id kd) = Some kd"
    and "state kd \<noteq> dead" and "state kd \<noteq> failed"
    and "\<not> isThrottled t0 (kd_id kd) s"
    and "error_count (kd_id kd) s = 0"
    and "handles_fresh s" and "keys_distinct s" and "records_given_out s"
    and "0 \<le> lat" and "\<not> terminal message"
    and "list_all transient_round rs" and "length rs = maxRetries (ks_opts s)"
    and "throttleInterval (ks_opts s) \<le> retryDelay (ks_opts s)"
    and "0 < retryDelay (ks_opts s)"
  shows "(\<forall>S i task kd0 kd1 m now.
            i < length (inFlight S)
            \<and> inFlight S ! i = \<lparr> fl_task = task, fl_then = Updating kd0 \<rparr>
            \<and> map_of (activeKeys S) (keyId task) = Some kd1 \<and> \<not> terminal m
            \<longrightarrow> fst (draw_settles i (DrawFailed m) now S) = Returned False
              \<and> failure_handled (keyId task) kd1 now S
                    (snd (draw_settles i (DrawFailed m) now S)))
       \<and> (\<forall>n < maxRetries (ks_opts s).
            awaiting_retry kd (Suc n) s
              (failing_retries (take n rs) (update_fails t0 ws lat message kd dat ro s)))
       \<and> gave_up kd s (failing_retries rs (update_fails t0 ws lat message kd dat ro s))
       \<and> map_of (activeKeys
            (performCleanup t
               (failing_retries rs (update_fails t0 ws lat message kd dat ro s))))
            (kd_id kd) = None
       \<and> (\<forall>n. retryDelay (ks_opts s) * int n < retryDelay (ks_opts s) * int (Suc n))"
proof -
  define F where "F n = failing_retries (take n rs) (update_fails t0 ws lat message kd dat ro s)" for n
  define M where "M = maxRetries (ks_opts s)"
  have q: "queue_given_out (ks_nextTimer s) s"
    using assms(9) by (simp add: records_given_out_def)
  have step: "fst (draw_settles i (DrawFailed m) now S) = Returned False
      \<and> failure_handled (keyId task) kd1 now S (snd (draw_settles i (DrawFailed m) now S))"
    if "i < length (inFlight S)"
      and "inFlight S ! i = \<lparr> fl_task = task, fl_then = Updating kd0 \<rparr>"
      and "map_of (activeKeys S) (keyId task) = Some kd1" and "\<not> terminal m"
    for S i task kd0 kd1 m now
    using that by (rule rejected_update_is_counted)
  have chain: "n \<le> M \<Longrightarrow>
      (if Suc n \<le> M then awaiting_retry kd (Suc n) s (F n) else gave_up kd s (F n))" for n
    using retry_chain [OF assms(1-8) q assms(10-12) assms(14,15), of n ws dat ro] assms(13)
    by (simp add: F_def M_def split: if_splits)
  have first: "\<forall>n < M. awaiting_retry kd (Suc n) s (F n)"
    using chain by (auto split: if_splits)
  have "gave_up kd s (F M)"
    using chain [of M] by simp
  moreover have "F M = failing_retries rs (update_fails t0 ws lat message kd dat ro s)"
    using assms(13) by (simp add: F_def M_def)
  ultimately have last: "gave_up kd s (failing_retries rs (update_fails t0 ws lat message kd dat ro s))"
    by simp
  then have "map_of (activeKeys (failing_retries rs (update_fails t0 ws lat message kd dat ro s)))
               (kd_id kd) = Some (kd\<lparr>state := failed\<rparr>)"
    by (simp add: gave_up_def)
  then have swept: "map_of (activeKeys (performCleanup t
        (failing_retries rs (update_fails t0 ws lat message kd dat ro s)))) (kd_id kd) = None"
    by (rule performCleanup_removes) simp
  have grows: "retryDelay (ks_opts s) * int n < retryDelay (ks_opts s) * int (Suc n)" for n
    using assms(15) by (simp add: algebra_simps)
  from step have steps: "\<forall>S i task kd0 kd1 m now.
            i < length (inFlight S)
            \<and> inFlight S ! i = \<lparr> fl_task = task, fl_then = Updating kd0 \<rparr>
            \<and> map_of (activeKeys S) (keyId task) = Some kd1 \<and> \<not> terminal m
            \<longrightarrow> fst (draw_settles i (DrawFailed m) now S) = Returned False
              \<and> failure_handled (keyId task) kd1 now S
                    (snd (draw_settles i (DrawFailed m) now S))"
    by blast
  from first have firsts: "\<forall>n < maxRetries (ks_opts s).
            awaiting_retry kd (Suc n) s
              (failing_retries (take n rs) (update_fails t0 ws lat message kd dat ro s))"
    by (simp add: F_def M_def)
  from grows have growss:
    "\<forall>n. retryDelay (ks_opts s) * int n < retryDelay (ks_opts s) * int (Suc n)"
    by blast
  from steps firsts last swept growss show ?thesis
    by (intro conjI)
qed

lemma transient_example:
  "\<not> terminal ''Device busy''" "\<not> terminal ''Draw timed out''"
  by (simp_all add: terminal_def)

lemma busy_device_example_eval:
  "connectedDevices busy_device_example = [''FLEX01'']"
  "activeKeys busy_device_example =
     [(''FLEX01-7'', flex_keyData), (''FLEX01-9'', wallet_keyData)]"
  "lastRenderTime busy_device_example = [(''FLEX01-9'', 900)]"
  "errorCounts busy_device_example = [(''FLEX01-9'', 1)]"
  "ks_timers busy_device_example = [\<lparr> handle = 0, due = 1905, callback = Retry wallet_keyData \<rparr>]"
  "ks_nextTimer busy_device_example = 1"
  "ks_opts busy_device_example = ks_default_options"
  "renderQueue busy_device_example = []"
  "inFlight busy_device_example = []"
  "plugin busy_device_example"
  by (simp_all add: busy_device_example_def update_fails_def draw_rejected_def sweeps_def
      registerKeys_def registerKey_def
      setPlugin_def ks_new_def ks_default_options_def updateKey_def
      isDeviceConnected_def isThrottled_def keyId_of_def queueRender_def
      getThrottleDelay_def executeRender_def keyId_parts_def render_call_def
      prepareRenderData_def applyDataToRenderData_def ks_emit_def Let_def set_add_def
      get_def flex_key_def wallet_key_def js_or_def draw_settles_def executeRender_resume_def
      handleKeyError_def error_count_def setTimeout_def transient_example
      flex_keyData_def wallet_keyData_def)

text \<open>
  The run on a device where another key is waiting for its retry, with the cleanup
  every five seconds: the first attempt is made at 1000 and rejected at 1005, the
  retries are due at 2005, 4010 and 7018, the cleanup runs at 5000, and at 10000 while
  the draw call of the third retry waits, which is rejected at 10018. The cleanup at
  15000 removes the key.
\<close>

theorem transient_failures_retry_then_fail_witness:
  "serialNumber flex_keyData \<in> set (connectedDevices busy_device_example)
   \<and> map_of (activeKeys busy_device_example) (kd_id flex_keyData) = Some flex_keyData
   \<and> state flex_keyData = inactive
   \<and> handles_fresh busy_device_example
   \<and> keys_distinct busy_device_example
   \<and> records_given_out busy_device_example
   \<and> ks_timers busy_device_example =
       [\<lparr> handle = 0, due = 1905, callback = Retry wallet_keyData \<rparr>]
   \<and> list_all transient_round busy_rounds
   \<and> length busy_rounds = maxRetries (ks_opts busy_device_example)
   \<and> failure_handled ''FLEX01-7'' flex_keyData 1005
        (snd (updateKey 1000 ''FLEX01'' ''7'' (JObj [(''level'', JNum 30)]) [] busy_device_example))
        (snd (draw_settles 0 (DrawFailed ''Device busy'') 1005
           (snd (updateKey 1000 ''FLEX01'' ''7'' (JObj [(''level'', JNum 30)]) []
                   busy_device_example))))
   \<and> awaiting_retry flex_keyData 3 busy_device_example
        (failing_retries (take 2 busy_rounds)
           (update_fails 1000 [] 5 ''Device busy'' flex_keyData (JObj [(''level'', JNum 30)]) []
              busy_device_example))
   \<and> gave_up flex_keyData busy_device_example
        (failing_retries busy_rounds
           (update_fails 1000 [] 5 ''Device busy'' flex_keyData (JObj [(''level'', JNum 30)]) []
              busy_device_example))
   \<and> map_of (activeKeys
        (performCleanup 15000
           (failing_retries busy_rounds
              (update_fails 1000 [] 5 ''Device busy'' flex_keyData (JObj [(''level'', JNum 30)]) []
                 busy_device_example))))
        ''FLEX01-7'' = None"
proof -
  let ?dat = "JObj [(''level'', JNum 30)]"
  let ?task = "\<lparr> keyId = ''FLEX01-7'', renderData = prepareRenderData flex_keyData ?dat [],
                  queued_at = 1000, timeout = None \<rparr>"
  let ?S = "snd (updateKey 1000 ''FLEX01'' ''7'' ?dat [] busy_device_example)"
  have k: "kd_id flex_keyData = ''FLEX01-7''"
    by (simp add: kd_id_def flex_keyData_def keyId_of_def)
  have st: "state flex_keyData = inactive"
    by (simp add: flex_keyData_def)
  have h: "serialNumber flex_keyData \<in> set (connectedDevices busy_device_example)"
    "map_of (activeKeys busy_device_example) (kd_id flex_keyData) = Some flex_keyData"
    "state flex_keyData \<noteq> dead" "state flex_keyData \<noteq> failed"
    "\<not> isThrottled 1000 (kd_id flex_keyData) busy_device_example"
    "error_count (kd_id flex_keyData) busy_device_example = 0"
    "handles_fresh busy_device_example"
    "keys_distinct busy_device_example"
    "records_given_out busy_device_example"
    "(0::int) \<le> 5" "\<not> terminal ''Device busy''"
    "list_all transient_round busy_rounds"
    "length busy_rounds = maxRetries (ks_opts busy_device_example)"
    "throttleInterval (ks_opts busy_device_example) \<le> retryDelay (ks_opts busy_device_example)"
    "0 < retryDelay (ks_opts busy_device_example)"
    by (simp_all add: k st busy_device_example_eval ks_default_options_def
        isThrottled_def error_count_def transient_example handles_fresh_def
        keys_distinct_def records_given_out_def queue_given_out_def
        busy_rounds_def)
      (simp add: flex_keyData_def)
  have m: "maxRetries (ks_opts busy_device_example) = 3"
    by (simp add: busy_device_example_eval ks_default_options_def)
  have fl: "inFlight ?S = [\<lparr> fl_task = ?task, fl_then = Updating flex_keyData \<rparr>]"
    and reg: "map_of (activeKeys ?S) (keyId ?task) = Some flex_keyData"
    by (simp_all add: updateKey_def isDeviceConnected_def isThrottled_def keyId_of_def
        busy_device_example_eval queueRender_def getThrottleDelay_def executeRender_def
        keyId_parts_example render_call_def prepareRenderData_def applyDataToRenderData_def
        get_def flex_keyData_def flex_key_def js_or_def Let_def)
  note chain = transient_failures_retry_then_fail
                 [OF h, of "[]" "JObj [(''level'', JNum 30)]" "[]" 15000, unfolded m k]
  from chain have "0 < length (inFlight ?S)
      \<and> inFlight ?S ! 0 = \<lparr> fl_task = ?task, fl_then = Updating flex_keyData \<rparr>
      \<and> map_of (activeKeys ?S) (keyId ?task) = Some flex_keyData
      \<and> \<not> terminal ''Device busy''
      \<longrightarrow> failure_handled (keyId ?task) flex_keyData 1005 ?S
            (snd (draw_settles 0 (DrawFailed ''Device busy'') 1005 ?S))"
    by blast
  then have handled: "failure_handled ''FLEX01-7'' flex_keyData 1005 ?S
      (snd (draw_settles 0 (DrawFailed ''Device busy'') 1005 ?S))"
    using reg by (simp add: fl transient_example)
  from chain have "(2::nat) < 3 \<longrightarrow> awaiting_retry flex_keyData (Suc 2) busy_device_example
        (failing_retries (take 2 busy_rounds)
           (update_fails 1000 [] 5 ''Device busy'' flex_keyData (JObj [(''level'', JNum 30)]) []
              busy_device_example))"
    by blast
  then have third: "awaiting_retry flex_keyData 3 busy_device_example
        (failing_retries (take 2 busy_rounds)
           (update_fails 1000 [] 5 ''Device busy'' flex_keyData (JObj [(''level'', JNum 30)]) []
              busy_device_example))"
    by (simp add: numeral_3_eq_3)
  from chain third handled h(1,2,7,8,9,12,13) st busy_device_example_eval(5) show ?thesis
    by simp
qed

text \<open>The same run, computed: the retries that are pending after each failure, and the failures reported.\<close>

lemma busy_device_run:
  "map due (added_timers busy_device_example
     (update_fails 1000 [] 5 ''Device busy'' flex_keyData (JObj [(''level'', JNum 30)]) []
        busy_device_example)) = [2005]"
  "map due (added_timers busy_device_example
     (failing_retries (take 1 busy_rounds)
        (update_fails 1000 [] 5 ''Device busy'' flex_keyData (JObj [(''level'', JNum 30)]) []
           busy_device_example))) = [4010]"
  "map due (added_timers busy_device_example
     (failing_retries (take 2 busy_rounds)
        (update_fails 1000 [] 5 ''Device busy'' flex_keyData (JObj [(''level'', JNum 30)]) []
           busy_device_example))) = [7018]"
  "ks_emitted (failing_retries busy_rounds
     (update_fails 1000 [] 5 ''Device busy'' flex_keyData (JObj [(''level'', JNum 30)]) []
        busy_device_example)) =
     [deviceConnected ''FLEX01'',
      keyError ''FLEX01'' (Some ''9'') ''Device busy'' 905,
      keyError ''FLEX01'' (Some ''7'') ''Device busy'' 1005,
      keyError ''FLEX01'' (Some ''7'') ''Device busy'' 2010,
      keyError ''FLEX01'' (Some ''7'') ''Device busy'' 4018,
      keyError ''FLEX01'' (Some ''7'') ''Draw timed out'' 10018]"
  by code_simp+

lemma queueRender_clear:
  "(case map_of (renderQueue s) kid of None \<Rightarrow> s
    | Some queued \<Rightarrow> clearTimeout (timeout queued) s) = clearTimeout (queued_timeout kid s) s"
  by (simp add: queued_timeout_def clearTimeout_def split: option.splits)

text \<open>
  In any state: when the draw call of a render that \<^verbatim>\<open>updateKey\<close> does not wait
  for is rejected, the rejection is thrown on and nothing is counted, scheduled or
  marked.
\<close>

lemma rejected_render_is_not_counted:
  assumes "i < length (inFlight s)"
    and "fl_then (inFlight s ! i) = Deferred \<or> fl_then (inFlight s ! i) = Queued"
  shows "fst (draw_settles i (DrawFailed message) now s) = Thrown message
       \<and> errorCounts (snd (draw_settles i (DrawFailed message) now s)) = errorCounts s
       \<and> ks_timers (snd (draw_settles i (DrawFailed message) now s)) = ks_timers s
       \<and> activeKeys (snd (draw_settles i (DrawFailed message) now s)) = activeKeys s"
  using assms
  by (auto simp: draw_settles_def Let_def executeRender_resume_def ks_emit_def)

text \<open>
  C5 as stated fails for a draw that was not requested through \<^verbatim>\<open>updateKey\<close>:
  \<^verbatim>\<open>handleKeyError\<close> is called by \<^verbatim>\<open>updateKey\<close> only. The key is active, the
  render that \<^verbatim>\<open>renderConnectionState\<close> queues for it is drawn at once, and the draw
  call is rejected with a transient error. The failure is reported by a \<open>keyError\<close>
  event and that is all: no failure is counted, no retry is scheduled, the key stays
  active and the cleanup keeps it.
\<close>

theorem failed_queueRender_draw_is_not_retried:
  "map_option state (map_of (activeKeys rendered_example) ''FLEX01-7'') = Some active
   \<and> \<not> terminal ''Device busy''
   \<and> error_count ''FLEX01-7'' connection_text_example = 0
   \<and> ks_timers connection_text_example = []
   \<and> inFlight connection_text_example = []
   \<and> map_option state (map_of (activeKeys connection_text_example) ''FLEX01-7'') = Some active
   \<and> length (draws connection_text_example) = length (draws rendered_example) + 1
   \<and> ks_emitted connection_text_example =
       ks_emitted rendered_example @ [keyError ''FLEX01'' (Some ''7'') ''Device busy'' 5010]
   \<and> map_option state
        (map_of (activeKeys (performCleanup 10000 connection_text_example)) ''FLEX01-7'') =
       Some active"
  by (simp add: connection_text_example_def queueRender_def queueRender_clear
      rendered_example_eval clearTimeout_def getThrottleDelay_def ks_default_options_def
      executeRender_def keyId_parts_example render_call_def prepareRenderData_def
      getConnectionStateRenderOptions_def set_style_def js_or_def flex_keyData_def flex_key_def
      draw_settles_def executeRender_resume_def ks_emit_def error_count_def Let_def
      transient_example performCleanup_def has_def)

text \<open>
  What the theorem leaves out. With a throttle interval longer than the retry delay the
  first retry is throttled: \<^verbatim>\<open>updateKey\<close> drops it, nothing is pending any more, and
  the key stays as it is with one failure counted.
\<close>

lemma throttled_retry_is_dropped:
  "ks_timers (retry_fails (Round [] 0 [] 5 ''Device busy'')
       (update_fails 1000 [] 5 ''Device busy'' flex_keyData (JObj [(''level'', JNum 30)]) []
          slow_throttle_example)) = []
   \<and> error_count ''FLEX01-7'' (retry_fails (Round [] 0 [] 5 ''Device busy'')
       (update_fails 1000 [] 5 ''Device busy'' flex_keyData (JObj [(''level'', JNum 30)]) []
          slow_throttle_example)) = 1
   \<and> map_option state (map_of (activeKeys (retry_fails (Round [] 0 [] 5 ''Device busy'')
       (update_fails 1000 [] 5 ''Device busy'' flex_keyData (JObj [(''level'', JNum 30)]) []
          slow_throttle_example))) ''FLEX01-7'') = Some inactive"
  by (simp add: update_fails_def draw_rejected_def sweeps_def slow_throttle_example_def
      registered_example_eval ks_new_def ks_default_options_def updateKey_def
      isDeviceConnected_def isThrottled_def keyId_of_def queueRender_def
      getThrottleDelay_def executeRender_def keyId_parts_example render_call_def
      prepareRenderData_def ks_emit_def Let_def applyDataToRenderData_def
      get_def flex_key_def js_or_def draw_settles_def executeRender_resume_def
      handleKeyError_def error_count_def setTimeout_def transient_example
      timer_fires_def clearTimeout_def retry_def getKeyState_def updateKeyState_def
      markDirty_def flex_keyData_def sm_new_def)

end
